theory Spec2Isabelle
  imports Complex_Main "HOL-Library.Multiset"
begin

section \<open>Python helpers\<close>

text \<open>Exceptions of the chunker that the model keeps as values.\<close>

datatype py_error = ZeroDivisionError

text \<open>Python's \<^verbatim>\<open>sep.join(xs)\<close> on strings.\<close>

fun join :: "string \<Rightarrow> string list \<Rightarrow> string" where
  "join sep [] = []"
| "join sep [x] = x"
| "join sep (x # y # ys) = x @ sep @ join sep (y # ys)"

definition newline :: string where
  "newline = [CHR 0x0A]"

section \<open>The chunker: app/services/azure/blob.py\<close>

text \<open>
  One row of the data frame after the two \<^verbatim>\<open>pd.to_datetime(..., errors='coerce')\<close>
  conversions (lines 43 and 46) and before the \<^verbatim>\<open>fillna\<close>: a timestamp is
  nanoseconds since the epoch, \<open>None\<close> is pandas' NaT (the cell did not parse).
  \<open>text_fields\<close> holds \<^verbatim>\<open>astype(str)\<close> of the six columns Timestamp, User ID,
  User Name, Channel, Message, Attachments.
\<close>

record row =
  Timestamp :: "int option"
  Parent_Message_Timestamp :: "int option"
  text_fields :: "string list"

text \<open>Line 66: \<^verbatim>\<open>group[text_fields].astype(str).agg(' '.join, axis=1)\<close>, for one row.\<close>

definition text_line :: "row \<Rightarrow> string" where
  "text_line r = join '' '' (text_fields r)"

text \<open>
  Line 46: the thread column is the parsed parent timestamp, filled from the parsed
  timestamp where it is NaT. It stays NaT when both are NaT.
\<close>

definition thread_field :: "row \<Rightarrow> int option" where
  "thread_field r =
     (case Parent_Message_Timestamp r of Some p \<Rightarrow> Some p | None \<Rightarrow> Timestamp r)"

text \<open>
  Line 50: \<^verbatim>\<open>df.sort_values('Timestamp')\<close>, ascending, NaT rows last
  (\<^verbatim>\<open>na_position='last'\<close>). Ties are kept in input order here.
\<close>

definition sort_values :: "row list \<Rightarrow> row list" where
  "sort_values df =
     sort_key (\<lambda>r. the (Timestamp r)) (filter (\<lambda>r. Timestamp r \<noteq> None) df)
     @ filter (\<lambda>r. Timestamp r = None) df"

text \<open>
  Line 60: \<^verbatim>\<open>df.groupby(thread_field)\<close> with pandas' defaults \<^verbatim>\<open>sort=True\<close> and
  \<^verbatim>\<open>dropna=True\<close>: one group per distinct key that is not NaT, the groups in ascending
  key order, the rows of a group in the order of the frame. Rows whose key is NaT belong
  to no group.
\<close>

definition groupby :: "row list \<Rightarrow> (int \<times> row list) list" where
  "groupby df =
     map (\<lambda>k. (k, filter (\<lambda>r. thread_field r = Some k) df))
         (sort (remdups (List.map_filter thread_field df)))"

text \<open>
  The loop state of lines 55 to 58. A passage is kept as the list of its rows; the text
  the source appends, \<^verbatim>\<open>"\n".join(lines)\<close>, is \<open>render\<close> of it.
\<close>

record chunker_state =
  chunks :: "row list list"
  current_chunk :: "row list"
  current_chunk_tokens :: nat
  last_ts :: "int option"

definition render :: "row list \<Rightarrow> string" where
  "render c = join newline (map text_line c)"

text \<open>
  Lines 79 to 91: the split of a thread that alone exceeds the budget. \<open>enc\<close> is
  \<^verbatim>\<open>len(encoding.encode(.))\<close>, the token count of the tokenizer, taken as a total
  function: a text on which the tokenizer raises is not modelled.
\<close>

fun split_thread :: "(string \<Rightarrow> nat) \<Rightarrow> int \<Rightarrow> row list \<Rightarrow> row list \<Rightarrow> nat \<Rightarrow> row list list" where
  "split_thread enc target_chunk_tokens [] temp_chunk temp_tokens =
     (if temp_chunk \<noteq> [] then [temp_chunk] else [])"
| "split_thread enc target_chunk_tokens (line # rest) temp_chunk temp_tokens =
     (let line_tokens = enc (text_line line) in
      if int (temp_tokens + line_tokens) > target_chunk_tokens
      then temp_chunk # split_thread enc target_chunk_tokens rest [line] line_tokens
      else split_thread enc target_chunk_tokens rest (temp_chunk @ [line]) (temp_tokens + line_tokens))"

text \<open>Line 103: \<^verbatim>\<open>group['Timestamp'].max()\<close>, which skips NaT and is NaT when all are.\<close>

definition max_ts :: "row list \<Rightarrow> int option" where
  "max_ts grp =
     (case List.map_filter Timestamp grp of [] \<Rightarrow> None | t # ts \<Rightarrow> Some (fold max ts t))"

text \<open>Line 63: \<^verbatim>\<open>group.iloc[0]['Timestamp']\<close>; a group of \<open>groupby\<close> is never empty.\<close>

definition first_ts_of :: "row list \<Rightarrow> int option" where
  "first_ts_of grp = (case grp of [] \<Rightarrow> None | r # _ \<Rightarrow> Timestamp r)"

text \<open>
  Line 95: \<^verbatim>\<open>last_ts is not None and (first_ts - last_ts > timedelta(minutes=w))\<close>.
  A comparison with NaT is false.
\<close>

definition time_gap :: "int \<Rightarrow> int option \<Rightarrow> int option \<Rightarrow> bool" where
  "time_gap time_window_minutes first_ts prev =
     (case prev of None \<Rightarrow> False
      | Some l \<Rightarrow> (case first_ts of None \<Rightarrow> False
                  | Some f \<Rightarrow> f - l > time_window_minutes * 60 * 1000000000))"

text \<open>The body of the loop over the groups, lines 62 to 113.\<close>

definition process_group ::
  "(string \<Rightarrow> nat) \<Rightarrow> int \<Rightarrow> int \<Rightarrow> chunker_state \<Rightarrow> int \<times> row list \<Rightarrow> chunker_state" where
  "process_group enc time_window_minutes target_chunk_tokens st kg =
     (let grp = snd kg;
          first_ts = first_ts_of grp;
          combined_tokens = enc (render grp);
          st1 = (if current_chunk st \<noteq> []
                    \<and> int (current_chunk_tokens st + combined_tokens) > target_chunk_tokens
                 then st\<lparr>chunks := chunks st @ [current_chunk st], current_chunk := [],
                         current_chunk_tokens := 0, last_ts := None\<rparr>
                 else st)
      in if int combined_tokens > target_chunk_tokens
         then st1\<lparr>chunks := chunks st1 @ split_thread enc target_chunk_tokens grp [] 0\<rparr>
         else
           let st2 = (if time_gap time_window_minutes first_ts (last_ts st1)
                      then st1\<lparr>chunks := chunks st1 @ [current_chunk st1], current_chunk := [],
                               current_chunk_tokens := 0\<rparr>
                      else st1);
               st3 = st2\<lparr>current_chunk := current_chunk st2 @ grp,
                          current_chunk_tokens := current_chunk_tokens st2 + combined_tokens\<rparr>
           in (case max_ts grp of
                 None \<Rightarrow> st3
               | Some group_max_ts \<Rightarrow>
                   st3\<lparr>last_ts := Some (case last_ts st3 of None \<Rightarrow> group_max_ts
                                         | Some l \<Rightarrow> max l group_max_ts)\<rparr>))"

definition initial_state :: chunker_state where
  "initial_state = \<lparr>chunks = [], current_chunk = [], current_chunk_tokens = 0, last_ts = None\<rparr>"

text \<open>Lines 43 to 117: the passages, each as the list of its rows.\<close>

definition chunk_rows :: "(string \<Rightarrow> nat) \<Rightarrow> int \<Rightarrow> int \<Rightarrow> row list \<Rightarrow> row list list" where
  "chunk_rows enc time_window_minutes target_chunk_tokens df =
     (let st = foldl (process_group enc time_window_minutes target_chunk_tokens)
                 initial_state (groupby (sort_values df))
      in chunks st @ (if current_chunk st \<noteq> [] then [current_chunk st] else []))"

text \<open>
  The whole function. Line 122 divides by \<^verbatim>\<open>len(token_counts)\<close> for the log line,
  which raises when there is no passage.
\<close>

definition preprocess_and_chunk_data ::
  "(string \<Rightarrow> nat) \<Rightarrow> int \<Rightarrow> int \<Rightarrow> row list \<Rightarrow> py_error + string list" where
  "preprocess_and_chunk_data enc time_window_minutes target_chunk_tokens df =
     (let texts = map render (chunk_rows enc time_window_minutes target_chunk_tokens df);
          token_counts = map enc texts
      in if length token_counts = 0 then Inl ZeroDivisionError else Inr texts)"

section \<open>The RAG service: app/services/rag/rag_service.py\<close>

subsection \<open>Python helpers\<close>

text \<open>
  \<^verbatim>\<open>str.strip()\<close> and \<^verbatim>\<open>str.lower()\<close> on ASCII text, and \<^verbatim>\<open>str(i)\<close> for a
  list index.
\<close>

definition is_space :: "char \<Rightarrow> bool" where
  "is_space c = (let n = (of_char c :: nat) in (9 \<le> n \<and> n \<le> 13) \<or> (28 \<le> n \<and> n \<le> 32))"

definition strip :: "string \<Rightarrow> string" where
  "strip s = rev (dropWhile is_space (rev (dropWhile is_space s)))"

definition lower_char :: "char \<Rightarrow> char" where
  "lower_char c = (let n = (of_char c :: nat) in if 65 \<le> n \<and> n \<le> 90 then char_of (n + 32) else c)"

definition lower :: "string \<Rightarrow> string" where
  "lower s = map lower_char s"

fun str_nat :: "nat \<Rightarrow> string" where
  "str_nat n = (if n < 10 then [char_of (48 + n)] else str_nat (n div 10) @ [char_of (48 + n mod 10)])"

text \<open>\<^verbatim>\<open>enumerate(xs)\<close>.\<close>

definition enumerate_from0 :: "'a list \<Rightarrow> (nat \<times> 'a) list" where
  "enumerate_from0 xs = zip [0..<length xs] xs"

subsection \<open>Python floats and \<^verbatim>\<open>list.sort\<close>\<close>

text \<open>
  A Python float: a finite number, an infinity or nan. \<open>float_lt\<close> is \<^verbatim>\<open><\<close>; every
  comparison with nan is false.
\<close>

datatype py_float = Float real | PosInf | NegInf | NaN

fun float_lt :: "py_float \<Rightarrow> py_float \<Rightarrow> bool" where
  "float_lt (Float x) (Float y) = (x < y)"
| "float_lt (Float x) PosInf = True"
| "float_lt NegInf (Float y) = True"
| "float_lt NegInf PosInf = True"
| "float_lt _ _ = False"

text \<open>
  \<^verbatim>\<open>list.sort\<close> as CPython's listsort runs it on a list shorter than 64 elements, on
  which it never merges: \<open>count_run\<close> takes the longest run at the front, ascending
  (no element less than the one before it) or strictly descending, a descending run
  is reversed, and every later element is put into the run by binary insertion. Only
  \<^verbatim>\<open><\<close> is used. On a longer list CPython sorts runs this way and merges them; with
  keys that \<^verbatim>\<open><\<close> orders totally the result is the same stable sort.
\<close>

fun run_ascending :: "('a \<Rightarrow> 'a \<Rightarrow> bool) \<Rightarrow> 'a \<Rightarrow> 'a list \<Rightarrow> nat" where
  "run_ascending lt prev [] = 0"
| "run_ascending lt prev (x # xs) = (if lt x prev then 0 else Suc (run_ascending lt x xs))"

fun run_descending :: "('a \<Rightarrow> 'a \<Rightarrow> bool) \<Rightarrow> 'a \<Rightarrow> 'a list \<Rightarrow> nat" where
  "run_descending lt prev [] = 0"
| "run_descending lt prev (x # xs) = (if lt x prev then Suc (run_descending lt x xs) else 0)"

definition count_run :: "('a \<Rightarrow> 'a \<Rightarrow> bool) \<Rightarrow> 'a list \<Rightarrow> nat \<times> bool" where
  "count_run lt xs =
     (case xs of
        [] \<Rightarrow> (0, False)
      | [x] \<Rightarrow> (1, False)
      | x # y # rest \<Rightarrow>
          (if lt y x then (2 + run_descending lt y rest, True)
           else (2 + run_ascending lt y rest, False)))"

text \<open>
  The binary search of \<^verbatim>\<open>binarysort\<close> for the place of \<open>pivot\<close> in \<open>xs\<close> between the
  positions \<open>l\<close> and \<open>r\<close>.
\<close>

function bisect :: "('a \<Rightarrow> 'a \<Rightarrow> bool) \<Rightarrow> 'a \<Rightarrow> 'a list \<Rightarrow> nat \<Rightarrow> nat \<Rightarrow> nat" where
  "bisect lt pivot xs l r =
     (if l < r
      then (let p = l + (r - l) div 2
            in if lt pivot (xs ! p) then bisect lt pivot xs l p else bisect lt pivot xs (p + 1) r)
      else l)"
  by pat_completeness auto
termination
  by (relation "measure (\<lambda>(lt, pivot, xs, l, r). r - l)") auto

declare bisect.simps [simp del]

fun binarysort :: "('a \<Rightarrow> 'a \<Rightarrow> bool) \<Rightarrow> 'a list \<Rightarrow> 'a list \<Rightarrow> 'a list" where
  "binarysort lt run [] = run"
| "binarysort lt run (pivot # rest) =
     (let l = bisect lt pivot run 0 (length run)
      in binarysort lt (take l run @ pivot # drop l run) rest)"

definition listsort :: "('a \<Rightarrow> 'a \<Rightarrow> bool) \<Rightarrow> 'a list \<Rightarrow> 'a list" where
  "listsort lt xs =
     (if length xs < 2 then xs
      else (let (n, descending) = count_run lt xs;
                run = (if descending then rev (take n xs) else take n xs)
            in binarysort lt run (drop n xs)))"

subsection \<open>Exceptions, requests and the external services\<close>

type_synonym embedding = "real list"

datatype error_code = INTERNAL_SERVER_ERROR | NOT_FOUND

text \<open>
  \<open>AppException code message context\<close> is app/core/exceptions.py's exception, its
  context dictionary as a list of pairs; \<open>OtherException\<close> is any other exception that
  leaves a function, with its text.
\<close>

datatype exn =
    AppException error_code string "(string \<times> string) list"
  | OtherException string

text \<open>\<^verbatim>\<open>str(e)\<close>; for an AppException it is \<^verbatim>\<open>__str__\<close> of app/core/exceptions.py.\<close>

definition str_exn :: "exn \<Rightarrow> string" where
  "str_exn e =
     (case e of
        AppException code message context \<Rightarrow>
          (case code of
             INTERNAL_SERVER_ERROR \<Rightarrow> ''[ErrorCode.INTERNAL_SERVER_ERROR] '' @ message
           | NOT_FOUND \<Rightarrow> ''[ErrorCode.NOT_FOUND] '' @ message)
      | OtherException message \<Rightarrow> message)"

text \<open>FastAPI's \<^verbatim>\<open>HTTPException(status_code, detail)\<close>, which the routes raise.\<close>

datatype http_exception = HTTPException nat string

text \<open>
  The three chat completion requests of the service. The fixed Japanese instructions of
  the prompts are not spelled out; each request carries the texts the source puts into
  it: the rewrite prompt of \<^verbatim>\<open>expand_query\<close> (query), the grading prompt of
  \<^verbatim>\<open>rerank_documents\<close> (query, contentSnippet), and the four messages of
  \<^verbatim>\<open>query_index\<close> (system_prompt, context_texts, query after the fixed instruction).
\<close>

datatype chat_request =
    RewritePrompt string
  | RelevancePrompt string string
  | AnswerMessages string string string

text \<open>A document stored in a search index, and a hit of a vector search.\<close>

record document =
  doc_id :: string
  content :: string
  contentVector :: embedding

record search_result =
  result_id :: string
  search_score :: real
  result_content :: string

text \<open>
  The collaborators, as functions of their request; \<open>Inl\<close> is the text of the exception
  the call raises.
  \<^item> \<open>embeddings_create\<close>: \<^verbatim>\<open>client.embeddings.create(input=., model=.).data[0].embedding\<close>;
  \<^item> \<open>chat_completions_create\<close>: \<^verbatim>\<open>client.chat.completions.create(.).choices[0].message.content\<close>;
  \<^item> \<open>float_of_str\<close>: Python's \<^verbatim>\<open>float(.)\<close>, \<open>None\<close> when it raises ValueError; it
    accepts the texts \<^verbatim>\<open>nan\<close> and \<^verbatim>\<open>inf\<close>;
  \<^item> \<open>vector_search\<close>: \<^verbatim>\<open>search_client.search\<close> over the documents of an index, with
    the query vector and \<^verbatim>\<open>top_k\<close>;
  \<^item> \<open>get_prompt_template\<close>: \<^verbatim>\<open>CompanyService.get_prompt_template(company_id)\<close>;
  \<^item> \<open>csvfile_blobUrl\<close>: the \<^verbatim>\<open>blobUrl\<close> of \<^verbatim>\<open>csvfile.find_first(where={"id": file_id})\<close>
    in the database of a company;
  \<^item> \<open>download_csv_from_blob\<close>: the rows of the CSV at a blob URL;
  \<^item> \<open>encode_len\<close>: \<^verbatim>\<open>len(encoding.encode(.))\<close> of \<^verbatim>\<open>cl100k_base\<close>;
  \<^item> \<open>md5_hexdigest\<close>: \<^verbatim>\<open>hashlib.md5(s.encode()).hexdigest()\<close>.
\<close>

record services =
  embeddings_create :: "string \<Rightarrow> string + embedding"
  chat_completions_create :: "chat_request \<Rightarrow> string + string"
  float_of_str :: "string \<Rightarrow> py_float option"
  vector_search :: "document list \<Rightarrow> embedding \<Rightarrow> int \<Rightarrow> string + search_result list"
  get_prompt_template :: "string \<Rightarrow> string + string"
  csvfile_blobUrl :: "string \<Rightarrow> string \<Rightarrow> string option"
  download_csv_from_blob :: "string \<Rightarrow> string + row list"
  encode_len :: "string \<Rightarrow> nat"
  md5_hexdigest :: "string \<Rightarrow> string"

text \<open>The calls a query makes to its collaborators, in order.\<close>

datatype call =
    Embeddings_create string
  | Chat_completions_create chat_request
  | Get_index string
  | Search string int
  | Get_prompt_template string

subsection \<open>The search service\<close>

text \<open>
  The state of Azure AI Search: the documents of every index that exists, by index name.
  The service holds indexes only (the source never creates an alias object), so
  \<^verbatim>\<open>get_index(name)\<close> returns the index of that very name or raises.
\<close>

type_synonym search_service = "string \<Rightarrow> document list option"

definition get_index :: "search_service \<Rightarrow> string \<Rightarrow> string option" where
  "get_index svc name = (case svc name of None \<Rightarrow> None | Some _ \<Rightarrow> Some name)"

definition index_exists :: "search_service \<Rightarrow> string \<Rightarrow> bool" where
  "index_exists svc name = (svc name \<noteq> None)"

definition create_index :: "search_service \<Rightarrow> string \<Rightarrow> search_service option" where
  "create_index svc name = (if index_exists svc name then None else Some (svc(name \<mapsto> [])))"

definition delete_index :: "search_service \<Rightarrow> string \<Rightarrow> search_service option" where
  "delete_index svc name = (if index_exists svc name then Some (svc(name := None)) else None)"

text \<open>The documents a search over the index of a name ranges over.\<close>

definition index_documents :: "search_service \<Rightarrow> string \<Rightarrow> document list" where
  "index_documents svc name = (case svc name of None \<Rightarrow> [] | Some docs \<Rightarrow> docs)"

text \<open>\<^verbatim>\<open>upload_documents\<close>: insert, or replace the document of the same key.\<close>

definition upload_documents :: "search_service \<Rightarrow> string \<Rightarrow> document list \<Rightarrow> search_service option" where
  "upload_documents svc name docs =
     (case svc name of
        None \<Rightarrow> None
      | Some old \<Rightarrow>
          Some (svc(name \<mapsto> filter (\<lambda>d. doc_id d \<notin> set (map doc_id docs)) old @ docs)))"

subsection \<open>create\_embeddings, lines 28 to 47\<close>

fun embed_loop :: "services \<Rightarrow> string list \<Rightarrow> embedding list \<Rightarrow> call list \<times> (exn + embedding list)" where
  "embed_loop sv [] embeddings = ([], Inr embeddings)"
| "embed_loop sv (chunk # rest) embeddings =
     (case embeddings_create sv chunk of
        Inl e \<Rightarrow>
          ([Embeddings_create chunk],
           Inl (AppException INTERNAL_SERVER_ERROR ''Failed to create embedding'' [(''error'', e)]))
      | Inr v \<Rightarrow>
          (let (calls, r) = embed_loop sv rest (embeddings @ [v])
           in (Embeddings_create chunk # calls, r)))"

definition create_embeddings :: "services \<Rightarrow> string list \<Rightarrow> call list \<times> (exn + embedding list)" where
  "create_embeddings sv text_chunks = embed_loop sv text_chunks []"

subsection \<open>expand\_query, lines 424 to 449\<close>

definition expand_query :: "services \<Rightarrow> string \<Rightarrow> call list \<times> string" where
  "expand_query sv query =
     ([Chat_completions_create (RewritePrompt query)],
      (case chat_completions_create sv (RewritePrompt query) of
         Inl e \<Rightarrow> query
       | Inr reply \<Rightarrow> strip reply))"

subsection \<open>rerank\_documents, lines 451 to 492\<close>

record source_document =
  documentId :: string
  relevanceScore :: real
  contentSnippet :: string

text \<open>
  An entry of \<^verbatim>\<open>reranked_results\<close>; \<open>rr_documentId\<close> and \<open>rr_contentSnippet\<close> are its
  keys \<^verbatim>\<open>documentId\<close> and \<^verbatim>\<open>contentSnippet\<close>.
\<close>

record reranked_document =
  rr_documentId :: string
  originalScore :: real
  rerankScore :: py_float
  rr_contentSnippet :: string

text \<open>The \<^verbatim>\<open>try\<close> block of lines 468 to 481.\<close>

definition relevance_score :: "services \<Rightarrow> string \<Rightarrow> source_document \<Rightarrow> py_float" where
  "relevance_score sv query doc =
     (case chat_completions_create sv (RelevancePrompt query (contentSnippet doc)) of
        Inl e \<Rightarrow> Float 0
      | Inr reply \<Rightarrow>
          (case float_of_str sv (strip reply) of None \<Rightarrow> Float 0 | Some score \<Rightarrow> score))"

definition rerank_entry :: "services \<Rightarrow> string \<Rightarrow> source_document \<Rightarrow> reranked_document" where
  "rerank_entry sv query doc =
     \<lparr>rr_documentId = documentId doc, originalScore = relevanceScore doc,
      rerankScore = relevance_score sv query doc, rr_contentSnippet = contentSnippet doc\<rparr>"

text \<open>
  \<^verbatim>\<open>list.sort(key=..., reverse=True)\<close>: the list is reversed, sorted in ascending order
  of the key by \<open>listsort\<close>, and reversed again.
\<close>

definition sort_reverse :: "('a \<Rightarrow> py_float) \<Rightarrow> 'a list \<Rightarrow> 'a list" where
  "sort_reverse key xs = rev (listsort (\<lambda>a b. float_lt (key a) (key b)) (rev xs))"

definition rerank_documents ::
  "services \<Rightarrow> string \<Rightarrow> source_document list \<Rightarrow> call list \<times> reranked_document list" where
  "rerank_documents sv query documents =
     (map (\<lambda>doc. Chat_completions_create (RelevancePrompt query (contentSnippet doc))) documents,
      sort_reverse rerankScore (map (rerank_entry sv query) documents))"

subsection \<open>query\_index, lines 495 to 610\<close>

record query_response =
  answer :: string
  scores :: "real list"
  sourceDocuments :: "source_document list"
  expandedQuery :: string

definition to_source_document :: "search_result \<Rightarrow> source_document" where
  "to_source_document result =
     \<lparr>documentId = result_id result, relevanceScore = search_score result,
      contentSnippet = result_content result\<rparr>"

text \<open>Lines 561 to 610, after the search has returned \<open>results\<close>.\<close>

definition answer_from_results ::
  "services \<Rightarrow> string \<Rightarrow> string \<Rightarrow> search_result list \<Rightarrow> call list \<times> (exn + query_response)" where
  "answer_from_results sv query company_id results =
     (let source_documents = map to_source_document results;
          (rerank_calls, reranked_documents) = rerank_documents sv query source_documents;
          context_texts = join newline (map rr_contentSnippet reranked_documents);
          calls = rerank_calls @ [Get_prompt_template company_id]
      in case get_prompt_template sv company_id of
           Inl e \<Rightarrow> (calls, Inl (OtherException e))
         | Inr system_prompt \<Rightarrow>
             (let request = AnswerMessages system_prompt context_texts query;
                  calls' = calls @ [Chat_completions_create request]
              in case chat_completions_create sv request of
                   Inl e \<Rightarrow> (calls', Inl (OtherException e))
                 | Inr completion \<Rightarrow>
                     (calls',
                      Inr \<lparr>answer = strip completion,
                           scores = map relevanceScore source_documents,
                           sourceDocuments = source_documents,
                           expandedQuery = query\<rparr>)))"

text \<open>
  \<open>AZURE_SEARCH_INDEX_NAME\<close> is \<^verbatim>\<open>settings.AZURE_SEARCH_INDEX_NAME\<close>. The index is
  chosen from it alone (line 512; the name with the company suffix is commented out
  on line 511).
\<close>

definition query_index ::
  "services \<Rightarrow> search_service \<Rightarrow> string \<Rightarrow> string \<Rightarrow> string \<Rightarrow> int
     \<Rightarrow> call list \<times> (exn + query_response)" where
  "query_index sv svc AZURE_SEARCH_INDEX_NAME query company_id top_k =
     (let (embed_calls, embedded) = create_embeddings sv [query]
      in case embedded of
           Inl e \<Rightarrow> (embed_calls, Inl e)
         | Inr [] \<Rightarrow> (embed_calls, Inl (OtherException ''IndexError''))
         | Inr (query_embedding # _) \<Rightarrow>
             (let index_name = AZURE_SEARCH_INDEX_NAME;
                  calls = embed_calls @ [Get_index index_name]
              in case get_index svc index_name of
                   None \<Rightarrow>
                     (calls,
                      Inl (AppException INTERNAL_SERVER_ERROR ''Failed to resolve index alias''
                             [(''error'', ''ResourceNotFoundError'')]))
                 | Some actual_index_name \<Rightarrow>
                     (let calls' = calls @ [Search actual_index_name top_k]
                      in case vector_search sv (index_documents svc actual_index_name) query_embedding top_k of
                           Inl e \<Rightarrow> (calls', Inl (OtherException e))
                         | Inr results \<Rightarrow>
                             (let (more_calls, r) = answer_from_results sv query company_id results
                              in (calls' @ more_calls, r)))))"

subsection \<open>The route POST /query, app/api/v1/rag/router.py lines 168 to 183\<close>

text \<open>
  The handler calls \<^verbatim>\<open>expand_query\<close>, then \<^verbatim>\<open>query_index\<close> on its result with
  \<^verbatim>\<open>top_k=5\<close>, and turns every exception into an HTTPException with status 500
  (lines 185 to 198).
\<close>

definition query_rag_index ::
  "services \<Rightarrow> search_service \<Rightarrow> string \<Rightarrow> string \<Rightarrow> string
     \<Rightarrow> call list \<times> (http_exception + query_response)" where
  "query_rag_index sv svc AZURE_SEARCH_INDEX_NAME payload_query payload_company_id =
     (let (expand_calls, expanded_query) = expand_query sv payload_query;
          (query_calls, result) =
             query_index sv svc AZURE_SEARCH_INDEX_NAME expanded_query payload_company_id 5
      in (expand_calls @ query_calls,
          (case result of
             Inr response \<Rightarrow> Inr response
           | Inl (AppException code message context) \<Rightarrow>
               Inl (HTTPException 500 (str_exn (AppException code message context)))
           | Inl (OtherException message) \<Rightarrow>
               Inl (HTTPException 500 ''An unexpected error occurred''))))"

subsection \<open>build\_index, lines 188 to 422\<close>

text \<open>\<^verbatim>\<open>str(e)\<close> of the chunker's exception, as it is formatted into messages.\<close>

definition str_py_error :: "py_error \<Rightarrow> string" where
  "str_py_error e = (case e of ZeroDivisionError \<Rightarrow> ''integer division or modulo by zero'')"

text \<open>
  Lines 271 to 360: the index the documents go to. The name is first looked up through
  \<^verbatim>\<open>get_index(base_index_name)\<close>; only when that raises is the name with the company
  suffix used. A new index is followed by the attempt to delete and create an index
  of the base name, whose failures are logged only. \<open>None\<close> is an exception of the
  block (Failed to manage indexes).
\<close>

definition ensure_index :: "search_service \<Rightarrow> string \<Rightarrow> string \<Rightarrow> (search_service \<times> string) option" where
  "ensure_index svc base_index_name company_id =
     (let actual_index_name =
            (case get_index svc base_index_name of
               Some name \<Rightarrow> name
             | None \<Rightarrow> base_index_name @ ''-'' @ lower company_id)
      in if index_exists svc actual_index_name then Some (svc, actual_index_name)
         else
           (case create_index svc actual_index_name of
              None \<Rightarrow> None
            | Some svc1 \<Rightarrow>
                (let svc2 = (case delete_index svc1 base_index_name of None \<Rightarrow> svc1 | Some s \<Rightarrow> s);
                     svc3 = (case create_index svc2 base_index_name of None \<Rightarrow> svc2 | Some s \<Rightarrow> s)
                 in Some (svc3, actual_index_name))))"

text \<open>Lines 382 to 385.\<close>

definition file_documents :: "string \<Rightarrow> string list \<Rightarrow> embedding list \<Rightarrow> document list" where
  "file_documents file_id text_chunks embeddings =
     map (\<lambda>(i, (chunk, embedding)).
            \<lparr>doc_id = file_id @ ''_'' @ str_nat i, content = chunk, contentVector = embedding\<rparr>)
         (enumerate_from0 (zip text_chunks embeddings))"

text \<open>
  The function returns the state of the search service next to its result: an index
  created before a later step fails stays. The status update of lines 400 to 408 writes
  to the company's database only and is left out.
\<close>

definition build_index ::
  "services \<Rightarrow> search_service \<Rightarrow> string \<Rightarrow> string \<Rightarrow> string \<Rightarrow> search_service \<times> (exn + nat)" where
  "build_index sv svc AZURE_SEARCH_INDEX_NAME file_id company_id =
     (case csvfile_blobUrl sv company_id file_id of
        None \<Rightarrow>
          (svc, Inl (AppException NOT_FOUND (''CSV file record not found for file_id: '' @ file_id)
                       [(''file_id'', file_id)]))
      | Some blob_url \<Rightarrow>
     (case download_csv_from_blob sv blob_url of
        Inl e \<Rightarrow>
          (svc, Inl (AppException INTERNAL_SERVER_ERROR (''Failed to download CSV from blob: '' @ e)
                       [(''error'', e), (''blob_url'', blob_url)]))
      | Inr df \<Rightarrow>
     (case preprocess_and_chunk_data (encode_len sv) 5 1000 df of
        Inl e \<Rightarrow>
          (svc, Inl (AppException INTERNAL_SERVER_ERROR
                       (''Failed to preprocess and chunk data: '' @ str_py_error e)
                       [(''error'', str_py_error e)]))
      | Inr text_chunks \<Rightarrow>
     (case snd (create_embeddings sv text_chunks) of
        Inl e \<Rightarrow>
          (svc, Inl (AppException INTERNAL_SERVER_ERROR (''Failed to create embeddings: '' @ str_exn e)
                       [(''error'', str_exn e)]))
      | Inr embeddings \<Rightarrow>
     (case ensure_index svc AZURE_SEARCH_INDEX_NAME company_id of
        None \<Rightarrow>
          (svc, Inl (AppException INTERNAL_SERVER_ERROR
                       ''Failed to manage indexes: ResourceExistsError''
                       [(''error'', ''ResourceExistsError'')]))
      | Some (svc', target_index_name) \<Rightarrow>
          (let documents = file_documents file_id text_chunks embeddings
           in case upload_documents svc' target_index_name documents of
                None \<Rightarrow>
                  (svc', Inl (AppException INTERNAL_SERVER_ERROR
                                ''Failed to upload documents: ResourceNotFoundError''
                                [(''error'', ''ResourceNotFoundError''),
                                 (''document_count'', str_nat (length documents))]))
              | Some svc'' \<Rightarrow> (svc'', Inr (length documents))))))))"

subsection \<open>build\_index\_from\_blob, lines 49 to 186\<close>



section \<open>Predicates used in the statements about the chunker\<close>

text \<open>
  What the budget test of the loop bounds: a passage is within the accounted budget when
  it can be cut into consecutive pieces whose separately encoded token counts sum to at
  most the target, or when it is a single line whose own count exceeds the target.
\<close>

definition accounted :: "(string \<Rightarrow> nat) \<Rightarrow> int \<Rightarrow> row list \<Rightarrow> bool" where
  "accounted enc t c \<longleftrightarrow>
     (\<exists>gs. concat gs = c \<and> int (sum_list (map (\<lambda>g. enc (render g)) gs)) \<le> t)
     \<or> (\<exists>r. c = [r] \<and> int (enc (text_line r)) > t)"

text \<open>The invariant of the loop over the groups.\<close>

definition buffer_inv :: "(string \<Rightarrow> nat) \<Rightarrow> int \<Rightarrow> chunker_state \<Rightarrow> bool" where
  "buffer_inv enc t st \<longleftrightarrow>
     (\<forall>c\<in>set (chunks st). accounted enc t c)
     \<and> (\<exists>gs. concat gs = current_chunk st
             \<and> sum_list (map (\<lambda>g. enc (render g)) gs) = current_chunk_tokens st)
     \<and> int (current_chunk_tokens st) \<le> t
     \<and> (current_chunk st = [] \<longrightarrow> current_chunk_tokens st = 0)"


section \<open>Concrete inputs\<close>

text \<open>
  A token counter for the concrete runs below: every blank-separated word is one token
  and every newline is one token. It stands for the tokenizer only in that a newline
  between two lines is counted when the joined text is encoded, which is what
  \<^verbatim>\<open>cl100k_base\<close> does for a line that ends in a letter or a digit.
\<close>

fun word_count :: "bool \<Rightarrow> string \<Rightarrow> nat" where
  "word_count in_word [] = 0"
| "word_count in_word (c # cs) =
     (if c = CHR '' '' \<or> c = CHR 0x0A then word_count False cs
      else (if in_word then 0 else 1) + word_count True cs)"

definition word_newline_tokens :: "string \<Rightarrow> nat" where
  "word_newline_tokens s = word_count False s + length (filter (\<lambda>c. c = CHR 0x0A) s)"

text \<open>Two top-level messages one minute apart, and one whose two timestamps do not parse.\<close>

definition row_0900 :: row where
  "row_0900 = \<lparr>Timestamp = Some 1704099600000000000, Parent_Message_Timestamp = None,
     text_fields = [''2024-01-01 09:00:00'', ''U1'', ''alice'', ''general'', ''hi'', ''nan'']\<rparr>"

definition row_0901 :: row where
  "row_0901 = \<lparr>Timestamp = Some 1704099660000000000, Parent_Message_Timestamp = None,
     text_fields = [''2024-01-01 09:01:00'', ''U2'', ''bob'', ''general'', ''hello'', ''nan'']\<rparr>"

definition row_unparsed :: row where
  "row_unparsed = \<lparr>Timestamp = None, Parent_Message_Timestamp = None,
     text_fields = [''NaT'', ''U3'', ''carol'', ''general'', ''lost'', ''nan'']\<rparr>"


text \<open>
  Collaborators for the concrete runs of the service. The rewrite request fails; the
  grading request answers 7, 2 and 9 for three passages, a reply that is not a number
  for a fourth, 1 for a sixth, the text nan for a seventh, and fails for any other; the
  search returns the first \<open>top_k\<close> documents of the index in stored order, scored by
  the inner product with the query vector.
\<close>

definition demo_chat :: "chat_request \<Rightarrow> string + string" where
  "demo_chat request =
     (case request of
        RewritePrompt query \<Rightarrow> Inl ''timeout''
      | RelevancePrompt query snippet \<Rightarrow>
          (if snippet = ''passage one'' then Inr '' 7 ''
           else if snippet = ''passage two'' then Inr ''2''
           else if snippet = ''passage three'' then Inr ''9''
           else if snippet = ''passage four'' then Inr ''high''
           else if snippet = ''passage six'' then Inr ''1''
           else if snippet = ''passage seven'' then Inr ''nan''
           else Inl ''timeout'')
      | AnswerMessages system_prompt context_texts query \<Rightarrow> Inr '' X is described in passage three. '')"

definition demo_float :: "string \<Rightarrow> py_float option" where
  "demo_float s =
     (if s = ''7'' then Some (Float 7) else if s = ''2'' then Some (Float 2)
      else if s = ''9'' then Some (Float 9) else if s = ''1'' then Some (Float 1)
      else if s = ''nan'' then Some NaN else None)"

definition demo_search :: "document list \<Rightarrow> embedding \<Rightarrow> int \<Rightarrow> string + search_result list" where
  "demo_search docs v k =
     Inr (map (\<lambda>d. \<lparr>result_id = doc_id d, search_score = sum_list (map2 (*) v (contentVector d)), result_content = content d\<rparr>)
            (take (nat k) docs))"

definition demo_download :: "string \<Rightarrow> string + row list" where
  "demo_download blob_url = (if blob_url = ''https://blob/file-x'' then Inr [row_0900] else Inr [row_0901])"

definition demo_services :: services where
  "demo_services =
     \<lparr>embeddings_create = (\<lambda>text. Inr [1]),
      chat_completions_create = demo_chat,
      float_of_str = demo_float,
      vector_search = demo_search,
      get_prompt_template = (\<lambda>company_id. Inr ''Answer briefly.''),
      csvfile_blobUrl = (\<lambda>company_id file_id. Some (''https://blob/'' @ file_id)),
      download_csv_from_blob = demo_download,
      encode_len = word_newline_tokens,
      md5_hexdigest = (\<lambda>s. ''0123456789abcdef0123456789abcdef'')\<rparr>"

text \<open>An index of three passages, stored in the order of their similarity to the query.\<close>

definition three_passages :: search_service where
  "three_passages =
     Map.empty(''rag'' \<mapsto>
       [\<lparr>doc_id = ''f_0'', content = ''passage one'', contentVector = [0.9]\<rparr>,
        \<lparr>doc_id = ''f_1'', content = ''passage two'', contentVector = [0.8]\<rparr>,
        \<lparr>doc_id = ''f_2'', content = ''passage three'', contentVector = [0.7]\<rparr>])"

text \<open>Four retrieved documents, for the reranker.\<close>

definition four_hits :: "source_document list" where
  "four_hits =
     [\<lparr>documentId = ''f_0'', relevanceScore = 0.9, contentSnippet = ''passage one''\<rparr>,
      \<lparr>documentId = ''f_1'', relevanceScore = 0.8, contentSnippet = ''passage two''\<rparr>,
      \<lparr>documentId = ''f_3'', relevanceScore = 0.75, contentSnippet = ''passage four''\<rparr>,
      \<lparr>documentId = ''f_4'', relevanceScore = 0.6, contentSnippet = ''passage five''\<rparr>]"

text \<open>Three retrieved documents whose replies are 1, nan and 2.\<close>

definition nan_hits :: "source_document list" where
  "nan_hits =
     [\<lparr>documentId = ''f_5'', relevanceScore = 0.9, contentSnippet = ''passage six''\<rparr>,
      \<lparr>documentId = ''f_6'', relevanceScore = 0.8, contentSnippet = ''passage seven''\<rparr>,
      \<lparr>documentId = ''f_1'', relevanceScore = 0.7, contentSnippet = ''passage two''\<rparr>]"

text \<open>The same collaborators with a rewrite request that succeeds.\<close>

definition rewriting_services :: services where
  "rewriting_services =
     demo_services\<lparr>chat_completions_create :=
       (\<lambda>request. case request of
            RewritePrompt query \<Rightarrow> Inr '' what is X in the handbook? ''
          | RelevancePrompt query snippet \<Rightarrow> demo_chat request
          | AnswerMessages system_prompt context_texts query \<Rightarrow> demo_chat request)\<rparr>"

text \<open>The same collaborators with an embedding service that fails on one text.\<close>

definition failing_on :: "string \<Rightarrow> services" where
  "failing_on bad =
     demo_services\<lparr>embeddings_create := (\<lambda>text. if text = bad then Inl ''timeout'' else Inr [1])\<rparr>"

section \<open>Properties of the chunker\<close>

text \<open>
  C8. On an empty row table the chunker does not return: no passage is produced, and the
  statistics line 122 divides by the number of passages, so the call raises
  ZeroDivisionError instead of returning the empty list.
\<close>

theorem chunker_empty_table_raises:
  "preprocess_and_chunk_data enc time_window_minutes target_chunk_tokens [] = Inl ZeroDivisionError"
  by (simp add: preprocess_and_chunk_data_def chunk_rows_def sort_values_def groupby_def
      List.map_filter_def initial_state_def)

subsection \<open>Which rows reach the passages\<close>

lemma split_thread_mset:
  "mset (concat (split_thread enc t ls temp n)) = mset temp + mset ls"
  by (induction ls arbitrary: temp n) (auto simp: Let_def)

lemma process_group_mset:
  "mset (concat (chunks (process_group enc w t st kg))) + mset (current_chunk (process_group enc w t st kg))
   = mset (concat (chunks st)) + mset (current_chunk st) + mset (snd kg)"
  by (auto simp: process_group_def Let_def split_thread_mset split: option.splits)

lemma foldl_process_mset:
  "mset (concat (chunks (foldl (process_group enc w t) st gs))) + mset (current_chunk (foldl (process_group enc w t) st gs))
   = mset (concat (chunks st)) + mset (current_chunk st) + mset (concat (map snd gs))"
  by (induction gs arbitrary: st) (simp_all add: process_group_mset)

lemma groups_partition:
  "distinct ks \<Longrightarrow>
   mset (concat (map (\<lambda>k. filter (\<lambda>r. f r = Some k) df) ks))
   = mset (filter (\<lambda>r. \<exists>k\<in>set ks. f r = Some k) df)"
proof (induction ks)
  case Nil
  then show ?case by simp
next
  case (Cons k ks)
  have "mset (filter (\<lambda>r. f r = Some k) df) + mset (filter (\<lambda>r. \<exists>k\<in>set ks. f r = Some k) df)
        = mset (filter (\<lambda>r. f r = Some k \<or> (\<exists>k\<in>set ks. f r = Some k)) df)"
    using Cons.prems by (induction df) auto
  with Cons show ?case by simp
qed

lemma groupby_mset:
  "mset (concat (map snd (groupby df))) = mset (filter (\<lambda>r. thread_field r \<noteq> None) df)"
proof -
  let ?ks = "sort (remdups (List.map_filter thread_field df))"
  have d: "distinct ?ks" by simp
  have s: "set ?ks = {k. \<exists>r\<in>set df. thread_field r = Some k}"
    by (force simp: List.map_filter_def image_iff)
  have "mset (concat (map snd (groupby df)))
        = mset (concat (map (\<lambda>k. filter (\<lambda>r. thread_field r = Some k) df) ?ks))"
    by (simp add: groupby_def comp_def)
  also have "\<dots> = mset (filter (\<lambda>r. \<exists>k\<in>set ?ks. thread_field r = Some k) df)"
    using groups_partition[OF d] by blast
  also have "\<dots> = mset (filter (\<lambda>r. thread_field r \<noteq> None) df)"
    unfolding s by (rule arg_cong[where f=mset], rule filter_cong) auto
  finally show ?thesis .
qed

lemma filter_split_mset: "mset (filter P xs) + mset (filter (\<lambda>x. \<not> P x) xs) = mset xs"
  by (induction xs) auto

lemma sort_values_mset: "mset (sort_values df) = mset df"
  using filter_split_mset[of "\<lambda>r. Timestamp r \<noteq> None" df] by (simp add: sort_values_def)

lemma chunk_rows_mset:
  "mset (concat (chunk_rows enc w t df)) = mset (filter (\<lambda>r. thread_field r \<noteq> None) df)"
proof -
  have "mset (concat (chunk_rows enc w t df)) = mset (concat (map snd (groupby (sort_values df))))"
    using foldl_process_mset[of enc w t initial_state "groupby (sort_values df)"]
    by (auto simp: chunk_rows_def Let_def initial_state_def)
  also have "\<dots> = mset (filter (\<lambda>r. thread_field r \<noteq> None) (sort_values df))"
    by (rule groupby_mset)
  also have "\<dots> = mset (filter (\<lambda>r. thread_field r \<noteq> None) df)"
    by (simp only: mset_filter sort_values_mset)
  finally show ?thesis .
qed

text \<open>
  C1. The input of two rows below has one row whose timestamp and parent timestamp both
  fail to parse. Its thread key stays NaT, \<open>groupby\<close> puts it in no group, and the
  passages hold the other row only: the row is dropped. (By \<open>chunk_rows_mset\<close> the rows
  that have a thread key are each emitted exactly once.)
\<close>

theorem chunker_drops_unparsed_row:
  "preprocess_and_chunk_data word_newline_tokens 5 1000 [row_0900, row_unparsed]
     = Inr [''2024-01-01 09:00:00 U1 alice general hi nan'']
   \<and> chunk_rows word_newline_tokens 5 1000 [row_0900, row_unparsed] = [[row_0900]]"
  by code_simp

subsection \<open>The token budget\<close>

lemma render_single: "render [r] = text_line r"
  by (simp add: render_def)

lemma accounted_lines:
  assumes "int (sum_list (map (\<lambda>r. enc (text_line r)) c)) \<le> t"
  shows "accounted enc t c"
proof -
  have "concat (map (\<lambda>r. [r]) c) = c" by (induction c) auto
  moreover have "map (\<lambda>g. enc (render g)) (map (\<lambda>r. [r]) c) = map (\<lambda>r. enc (text_line r)) c"
    by (simp add: render_single comp_def)
  ultimately show ?thesis
    unfolding accounted_def using assms by metis
qed

lemma accounted_single: "accounted enc t [r]"
proof (cases "int (enc (text_line r)) \<le> t")
  case True
  then show ?thesis by (intro accounted_lines) simp
next
  case False
  then show ?thesis by (auto simp: accounted_def)
qed

lemma split_thread_accounted:
  assumes "0 \<le> t"
  shows "n = sum_list (map (\<lambda>r. enc (text_line r)) temp) \<Longrightarrow> int n \<le> t \<or> length temp = 1
     \<Longrightarrow> c \<in> set (split_thread enc t ls temp n) \<Longrightarrow> accounted enc t c"
proof (induction ls arbitrary: temp n)
  case Nil
  then show ?case
    by (auto simp: accounted_lines accounted_single length_Suc_conv split: if_splits)
next
  case (Cons l ls)
  have temp_ok: "accounted enc t temp"
    using Cons.prems(1,2) by (auto simp: accounted_lines accounted_single length_Suc_conv)
  show ?case
  proof (cases "int (n + enc (text_line l)) > t")
    case True
    with Cons.prems(3) have "c = temp \<or> c \<in> set (split_thread enc t ls [l] (enc (text_line l)))"
      by (simp add: Let_def)
    then show ?thesis
    proof
      assume "c = temp" with temp_ok show ?thesis by simp
    next
      assume "c \<in> set (split_thread enc t ls [l] (enc (text_line l)))"
      then show ?thesis by (intro Cons.IH[of "enc (text_line l)" "[l]"]) simp_all
    qed
  next
    case False
    with Cons.prems(3) have "c \<in> set (split_thread enc t ls (temp @ [l]) (n + enc (text_line l)))"
      by (simp add: Let_def)
    then show ?thesis
      using False Cons.prems(1) by (intro Cons.IH[of "n + enc (text_line l)" "temp @ [l]"]) simp_all
  qed
qed

lemma buffer_inv_accounted: "buffer_inv enc t st \<Longrightarrow> accounted enc t (current_chunk st)"
  unfolding buffer_inv_def accounted_def by metis

lemma buffer_inv_flush:
  assumes "buffer_inv enc t st" "0 \<le> t"
  shows "buffer_inv enc t (st\<lparr>chunks := chunks st @ [current_chunk st], current_chunk := [],
                         current_chunk_tokens := 0, last_ts := l\<rparr>)"
proof -
  have "concat [] = ([]::row list) \<and> sum_list (map (\<lambda>g. enc (render g)) []) = (0::nat)" by simp
  then have "\<exists>gs. concat gs = ([]::row list) \<and> sum_list (map (\<lambda>g. enc (render g)) gs) = (0::nat)"
    by blast
  then show ?thesis
    using assms buffer_inv_accounted[OF assms(1)] by (auto simp: buffer_inv_def)
qed

lemma buffer_inv_add:
  assumes "buffer_inv enc t st" "int (current_chunk_tokens st + enc (render g)) \<le> t" "g \<noteq> []"
  shows "buffer_inv enc t (st\<lparr>current_chunk := current_chunk st @ g,
                         current_chunk_tokens := current_chunk_tokens st + enc (render g)\<rparr>)"
proof -
  from assms(1) obtain gs where gs: "concat gs = current_chunk st"
    "sum_list (map (\<lambda>g. enc (render g)) gs) = current_chunk_tokens st"
    unfolding buffer_inv_def by blast
  have "concat (gs @ [g]) = current_chunk st @ g
        \<and> sum_list (map (\<lambda>g. enc (render g)) (gs @ [g])) = current_chunk_tokens st + enc (render g)"
    using gs by simp
  then have "\<exists>gs'. concat gs' = current_chunk st @ g
        \<and> sum_list (map (\<lambda>g. enc (render g)) gs') = current_chunk_tokens st + enc (render g)"
    by blast
  then show ?thesis
    using assms by (simp add: buffer_inv_def)
qed

lemma buffer_inv_last_ts: "buffer_inv enc t (st\<lparr>last_ts := l\<rparr>) = buffer_inv enc t st"
  by (simp add: buffer_inv_def)

lemma process_group_inv:
  assumes t: "0 \<le> t" and inv: "buffer_inv enc t st" and ne: "snd kg \<noteq> []"
  shows "buffer_inv enc t (process_group enc w t st kg)"
proof -
  define g where "g = snd kg"
  define ct where "ct = enc (render g)"
  define st1 where "st1 = (if current_chunk st \<noteq> [] \<and> int (current_chunk_tokens st + ct) > t
                 then st\<lparr>chunks := chunks st @ [current_chunk st], current_chunk := [],
                         current_chunk_tokens := 0, last_ts := None\<rparr>
                 else st)"
  define st2 where "st2 = (if time_gap w (first_ts_of g) (last_ts st1)
                      then st1\<lparr>chunks := chunks st1 @ [current_chunk st1], current_chunk := [],
                               current_chunk_tokens := 0\<rparr>
                      else st1)"
  define st3 where "st3 = st2\<lparr>current_chunk := current_chunk st2 @ g,
                          current_chunk_tokens := current_chunk_tokens st2 + ct\<rparr>"
  have eq: "process_group enc w t st kg =
          (if int ct > t then st1\<lparr>chunks := chunks st1 @ split_thread enc t g [] 0\<rparr>
           else (case max_ts g of None \<Rightarrow> st3
                 | Some m \<Rightarrow> st3\<lparr>last_ts := Some (case last_ts st3 of None \<Rightarrow> m | Some l \<Rightarrow> max l m)\<rparr>))"
    unfolding process_group_def Let_def g_def ct_def st1_def st2_def st3_def by (rule refl)
  have inv1: "buffer_inv enc t st1"
    unfolding st1_def using buffer_inv_flush[OF inv t] inv by simp
  have fit1: "int ct \<le> t \<Longrightarrow> int (current_chunk_tokens st1 + ct) \<le> t"
    unfolding st1_def using inv by (auto simp: buffer_inv_def)
  show ?thesis
  proof (cases "int ct > t")
    case True
    have "buffer_inv enc t (st1\<lparr>chunks := chunks st1 @ split_thread enc t g [] 0\<rparr>)"
      using inv1 t split_thread_accounted[OF t, of 0 enc "[]" _ g]
      by (auto simp: buffer_inv_def)
    with True show ?thesis by (simp only: eq if_True)
  next
    case False
    have "buffer_inv enc t (st1\<lparr>chunks := chunks st1 @ [current_chunk st1], current_chunk := [],
                               current_chunk_tokens := 0, last_ts := last_ts st1\<rparr>)"
      by (rule buffer_inv_flush[OF inv1 t])
    then have inv2: "buffer_inv enc t st2"
      unfolding st2_def using inv1 by simp
    have fit2: "int (current_chunk_tokens st2 + ct) \<le> t"
      unfolding st2_def using fit1 False by simp
    have inv3: "buffer_inv enc t st3"
      unfolding st3_def ct_def using buffer_inv_add[OF inv2 fit2[unfolded ct_def]] ne g_def by simp
    from False have "process_group enc w t st kg =
          (case max_ts g of None \<Rightarrow> st3
           | Some m \<Rightarrow> st3\<lparr>last_ts := Some (case last_ts st3 of None \<Rightarrow> m | Some l \<Rightarrow> max l m)\<rparr>)"
      by (simp only: eq if_False)
    then show ?thesis
      using inv3 by (simp add: buffer_inv_last_ts split: option.splits)
  qed
qed

lemma foldl_process_inv:
  assumes "0 \<le> t"
  shows "buffer_inv enc t st \<Longrightarrow> \<forall>kg\<in>set gs. snd kg \<noteq> []
     \<Longrightarrow> buffer_inv enc t (foldl (process_group enc w t) st gs)"
  by (induction gs arbitrary: st) (simp_all add: process_group_inv[OF assms])

lemma groupby_nonempty: "kg \<in> set (groupby df) \<Longrightarrow> snd kg \<noteq> []"
  by (auto simp: groupby_def List.map_filter_def filter_empty_conv)

lemma initial_inv: "0 \<le> t \<Longrightarrow> buffer_inv enc t initial_state"
proof -
  have "concat [] = ([]::row list) \<and> sum_list (map (\<lambda>g. enc (render g)) []) = (0::nat)" by simp
  then have "\<exists>gs. concat gs = ([]::row list) \<and> sum_list (map (\<lambda>g. enc (render g)) gs) = (0::nat)"
    by blast
  then show "0 \<le> t \<Longrightarrow> buffer_inv enc t initial_state"
    by (simp add: buffer_inv_def initial_state_def)
qed

text \<open>
  C2, as the code has it. For a target that is not negative, every passage the chunker
  emits is within the accounted budget: it is a concatenation of pieces (the thread
  groups put into the buffer, or the single lines of a split thread) whose token counts,
  each piece encoded on its own, sum to at most \<open>target_chunk_tokens\<close>; or it is a
  single line whose own token count exceeds the target. The count of the joined passage
  text is not what is bounded.
\<close>

theorem chunker_accounted_budget:
  assumes "0 \<le> target_chunk_tokens"
    and "c \<in> set (chunk_rows enc time_window_minutes target_chunk_tokens df)"
  shows "(\<exists>gs. concat gs = c \<and> int (sum_list (map (\<lambda>g. enc (render g)) gs)) \<le> target_chunk_tokens)
       \<or> (\<exists>r. c = [r] \<and> int (enc (text_line r)) > target_chunk_tokens)"
proof -
  let ?st = "foldl (process_group enc time_window_minutes target_chunk_tokens) initial_state
               (groupby (sort_values df))"
  have inv: "buffer_inv enc target_chunk_tokens ?st"
    using foldl_process_inv[OF assms(1) initial_inv[OF assms(1)]] groupby_nonempty by blast
  from assms(2) have "c \<in> set (chunks ?st) \<or> c = current_chunk ?st"
    by (auto simp: chunk_rows_def Let_def split: if_splits)
  then have "accounted enc target_chunk_tokens c"
    using inv buffer_inv_accounted[OF inv] by (auto simp: buffer_inv_def)
  then show ?thesis by (simp add: accounted_def)
qed

theorem chunker_accounted_budget_witness:
  "[row_0900, row_0901] \<in> set (chunk_rows word_newline_tokens 5 14 [row_0900, row_0901])
   \<and> ((\<exists>gs. concat gs = [row_0900, row_0901]
            \<and> int (sum_list (map (\<lambda>g. word_newline_tokens (render g)) gs)) \<le> 14)
       \<or> (\<exists>r. [row_0900, row_0901] = [r] \<and> int (word_newline_tokens (text_line r)) > 14))"
proof -
  have m: "[row_0900, row_0901] \<in> set (chunk_rows word_newline_tokens 5 14 [row_0900, row_0901])"
    by code_simp
  have z: "(0::int) \<le> 14" by simp
  from chunker_accounted_budget[OF z m] m show ?thesis by blast
qed

text \<open>
  C2 as stated fails: two top-level messages of 7 tokens each, one minute apart, with a
  target of 14. The buffer test adds 7 and 7 and keeps both in one passage; the passage
  has two lines, and its text, with the newline that joins them, has 15 tokens.
\<close>

theorem chunker_passage_over_budget:
  "preprocess_and_chunk_data word_newline_tokens 5 14 [row_0900, row_0901]
     = Inr [text_line row_0900 @ newline @ text_line row_0901]
   \<and> word_newline_tokens (text_line row_0900 @ newline @ text_line row_0901) = 15
   \<and> word_newline_tokens (text_line row_0900) = 7
   \<and> word_newline_tokens (text_line row_0901) = 7"
  by code_simp

subsection \<open>The order of the thread groups\<close>









section \<open>Properties of the RAG service\<close>

subsection \<open>create\_embeddings\<close>

lemma embed_loop_first_failure:
  "i < length texts \<Longrightarrow> embeddings_create sv (texts ! i) = Inl e
   \<Longrightarrow> \<forall>j<i. \<exists>v. embeddings_create sv (texts ! j) = Inr v
   \<Longrightarrow> embed_loop sv texts acc =
        (map Embeddings_create (take (Suc i) texts),
         Inl (AppException INTERNAL_SERVER_ERROR ''Failed to create embedding'' [(''error'', e)]))"
proof (induction texts arbitrary: i acc)
  case Nil
  then show ?case by simp
next
  case (Cons t ts)
  show ?case
  proof (cases i)
    case 0
    with Cons.prems show ?thesis by simp
  next
    case (Suc k)
    from Cons.prems(3) Suc obtain v where v: "embeddings_create sv t = Inr v" by force
    have "\<forall>j<k. \<exists>v. embeddings_create sv (ts ! j) = Inr v"
      using Cons.prems(3) Suc by force
    with Cons.IH[of k "acc @ [v]"] Cons.prems(1,2) Suc
    have "embed_loop sv ts (acc @ [v]) =
        (map Embeddings_create (take (Suc k) ts),
         Inl (AppException INTERNAL_SERVER_ERROR ''Failed to create embedding'' [(''error'', e)]))"
      by simp
    with v Suc show ?thesis by simp
  qed
qed

text \<open>
  C7, as the code has it. When the embedding of a text fails and every earlier text
  succeeded, \<open>create_embeddings\<close> makes no further call, returns no embedding, and
  raises AppException(INTERNAL\_SERVER\_ERROR, "Failed to create embedding") whose
  context holds the text of the underlying error only.
\<close>

theorem create_embeddings_aborts_on_first_failure:
  assumes "i < length text_chunks"
    and "embeddings_create sv (text_chunks ! i) = Inl e"
    and "\<forall>j<i. \<exists>v. embeddings_create sv (text_chunks ! j) = Inr v"
  shows "create_embeddings sv text_chunks =
        (map Embeddings_create (take (Suc i) text_chunks),
         Inl (AppException INTERNAL_SERVER_ERROR ''Failed to create embedding'' [(''error'', e)]))"
  unfolding create_embeddings_def using assms by (rule embed_loop_first_failure)

theorem create_embeddings_aborts_witness:
  "create_embeddings (failing_on ''second'') [''first'', ''second'', ''third''] =
     ([Embeddings_create ''first'', Embeddings_create ''second''],
      Inl (AppException INTERNAL_SERVER_ERROR ''Failed to create embedding'' [(''error'', ''timeout'')]))"
proof -
  have a: "(1::nat) < length [''first'', ''second'', ''third'']" by simp
  have b: "embeddings_create (failing_on ''second'') ([''first'', ''second'', ''third''] ! 1) = Inl ''timeout''"
    by (simp add: failing_on_def)
  have c: "\<forall>j<(1::nat). \<exists>v. embeddings_create (failing_on ''second'') ([''first'', ''second'', ''third''] ! j) = Inr v"
    by (simp add: failing_on_def)
  from create_embeddings_aborts_on_first_failure[OF a b c] show ?thesis by simp
qed

text \<open>
  C7 as stated fails in its last part: the exception does not carry the index of the
  failing text. The same two texts fail at index 0 with one service and at index 1 with
  another, and the exception raised is the same value.
\<close>

theorem create_embeddings_error_without_index:
  "snd (create_embeddings (failing_on ''first'') [''first'', ''second''])
     = Inl (AppException INTERNAL_SERVER_ERROR ''Failed to create embedding'' [(''error'', ''timeout'')])
   \<and> snd (create_embeddings (failing_on ''second'') [''first'', ''second''])
     = Inl (AppException INTERNAL_SERVER_ERROR ''Failed to create embedding'' [(''error'', ''timeout'')])
   \<and> embeddings_create (failing_on ''first'') ''first'' = Inl ''timeout''
   \<and> embeddings_create (failing_on ''second'') ''first'' = Inr [1]
   \<and> embeddings_create (failing_on ''second'') ''second'' = Inl ''timeout''"
  by (simp add: create_embeddings_def failing_on_def)

subsection \<open>\<^verbatim>\<open>list.sort\<close>\<close>

text \<open>
  The sort keeps the elements, and it sorts when the comparison is asymmetric and its
  negation is transitive on the elements, as \<open>float_lt\<close> is on floats other than nan.
\<close>

lemma float_lt_asym: "float_lt a b \<Longrightarrow> \<not> float_lt b a"
  by (cases a; cases b) auto

lemma float_not_lt_trans:
  "a \<noteq> NaN \<Longrightarrow> b \<noteq> NaN \<Longrightarrow> c \<noteq> NaN
   \<Longrightarrow> \<not> float_lt b a \<Longrightarrow> \<not> float_lt c b \<Longrightarrow> \<not> float_lt c a"
  by (cases a; cases b; cases c) auto

lemma binarysort_mset: "mset (binarysort lt run rest) = mset run + mset rest"
proof (induction rest arbitrary: run)
  case Nil
  show ?case by simp
next
  case (Cons pivot rest)
  have "mset (take l run @ pivot # drop l run) = mset run + {#pivot#}" for l
  proof -
    have "mset (take l run) + mset (drop l run) = mset run"
      by (metis append_take_drop_id mset_append)
    then show ?thesis by simp
  qed
  with Cons show ?case by (simp add: Let_def)
qed

lemma listsort_mset: "mset (listsort lt xs) = mset xs"
proof (cases "length xs < 2")
  case True
  then show ?thesis by (simp add: listsort_def)
next
  case False
  obtain n descending where cr: "count_run lt xs = (n, descending)"
    by (cases "count_run lt xs")
  have "mset (take n xs) + mset (drop n xs) = mset xs"
    by (metis append_take_drop_id mset_append)
  then have "mset (if descending then rev (take n xs) else take n xs) + mset (drop n xs) = mset xs"
    by simp
  with False cr show ?thesis
    by (simp add: listsort_def Let_def binarysort_mset del: mset_append)
qed

lemma sort_reverse_mset: "mset (sort_reverse key xs) = mset xs"
  by (simp add: sort_reverse_def listsort_mset)

lemma sort_reverse_length: "length (sort_reverse key xs) = length xs"
  using sort_reverse_mset[of key xs] by (metis size_mset)

lemma run_ascending_chain:
  "successively (\<lambda>a b. \<not> lt b a) (prev # take (run_ascending lt prev xs) xs)"
  by (induction xs arbitrary: prev) auto

lemma run_descending_chain:
  "successively (\<lambda>a b. lt b a) (prev # take (run_descending lt prev xs) xs)"
  by (induction xs arbitrary: prev) auto

lemma chain_sorted:
  assumes tr: "\<And>x y z. x \<in> S \<Longrightarrow> y \<in> S \<Longrightarrow> z \<in> S \<Longrightarrow> \<not> lt y x \<Longrightarrow> \<not> lt z y \<Longrightarrow> \<not> lt z x"
    and sub: "set xs \<subseteq> S" and ch: "successively (\<lambda>a b. \<not> lt b a) xs"
  shows "sorted_wrt (\<lambda>a b. \<not> lt b a) xs"
proof -
  have "successively (\<lambda>a b. \<not> lt b a) xs = sorted_wrt (\<lambda>a b. \<not> lt b a) xs"
  proof (rule successively_iff_sorted_wrt_strong)
    fix x y z
    assume "x \<in> set xs" "y \<in> set xs" "z \<in> set xs" "\<not> lt y x" "\<not> lt z y"
    with sub tr[of x y z] show "\<not> lt z x" by blast
  qed
  with ch show ?thesis by simp
qed

lemma first_run_sorted:
  assumes asym: "\<And>x y. lt x y \<Longrightarrow> \<not> lt y x"
    and tr: "\<And>x y z. x \<in> S \<Longrightarrow> y \<in> S \<Longrightarrow> z \<in> S \<Longrightarrow> \<not> lt y x \<Longrightarrow> \<not> lt z y \<Longrightarrow> \<not> lt z x"
    and sub: "set xs \<subseteq> S" and cr: "count_run lt xs = (n, descending)"
  shows "sorted_wrt (\<lambda>a b. \<not> lt b a) (if descending then rev (take n xs) else take n xs)"
proof (cases xs)
  case Nil
  then show ?thesis by simp
next
  case (Cons x ys)
  note xs = this
  show ?thesis
  proof (cases ys)
    case Nil
    with xs cr show ?thesis by (auto simp: count_run_def)
  next
    case (Cons y rest)
    note ys = this
    show ?thesis
    proof (cases "lt y x")
      case True
      with xs ys cr have n: "n = 2 + run_descending lt y rest" and d: "descending"
        by (auto simp: count_run_def)
      have "successively (\<lambda>a b. lt b a) (x # y # take (run_descending lt y rest) rest)"
        using True run_descending_chain[of lt y rest] by simp
      then have "successively (\<lambda>a b. lt b a) (take n xs)"
        using xs ys n by simp
      then have "successively (\<lambda>a b. lt a b) (rev (take n xs))"
        by (simp add: successively_rev)
      then have ch: "successively (\<lambda>a b. \<not> lt b a) (rev (take n xs))"
        by (rule successively_mono) (rule asym)
      have sb: "set (rev (take n xs)) \<subseteq> S"
        using sub set_take_subset[of n xs] by auto
      have "sorted_wrt (\<lambda>a b. \<not> lt b a) (rev (take n xs))"
        by (rule chain_sorted[where S = S, OF tr sb ch])
      with d show ?thesis by simp
    next
      case False
      with xs ys cr have n: "n = 2 + run_ascending lt y rest" and d: "\<not> descending"
        by (auto simp: count_run_def)
      have "successively (\<lambda>a b. \<not> lt b a) (x # y # take (run_ascending lt y rest) rest)"
        using False run_ascending_chain[of lt y rest] by simp
      then have ch: "successively (\<lambda>a b. \<not> lt b a) (take n xs)"
        using xs ys n by simp
      have sb: "set (take n xs) \<subseteq> S"
        using sub set_take_subset[of n xs] by auto
      have "sorted_wrt (\<lambda>a b. \<not> lt b a) (take n xs)"
        by (rule chain_sorted[where S = S, OF tr sb ch])
      with d show ?thesis by simp
    qed
  qed
qed

lemma bisect_position:
  assumes tr: "\<And>x y z. x \<in> S \<Longrightarrow> y \<in> S \<Longrightarrow> z \<in> S \<Longrightarrow> \<not> lt y x \<Longrightarrow> \<not> lt z y \<Longrightarrow> \<not> lt z x"
    and sub: "set run \<subseteq> S" and piv: "pivot \<in> S"
    and srt: "sorted_wrt (\<lambda>a b. \<not> lt b a) run"
  shows "l \<le> r \<Longrightarrow> r \<le> length run
     \<Longrightarrow> \<forall>i<l. \<not> lt pivot (run ! i)
     \<Longrightarrow> \<forall>i. r \<le> i \<and> i < length run \<longrightarrow> lt pivot (run ! i)
     \<Longrightarrow> bisect lt pivot run l r \<le> length run
         \<and> (\<forall>i<bisect lt pivot run l r. \<not> lt pivot (run ! i))
         \<and> (\<forall>i. bisect lt pivot run l r \<le> i \<and> i < length run \<longrightarrow> lt pivot (run ! i))"
proof (induction "r - l" arbitrary: l r rule: less_induct)
  case less
  show ?case
  proof (cases "l < r")
    case False
    with less.prems have "l = r" by simp
    with less.prems show ?thesis by (simp add: bisect.simps[of lt pivot run r r])
  next
    case True
    define p where "p = l + (r - l) div 2"
    have p: "l \<le> p" "p < r" using True by (auto simp: p_def)
    have plen: "p < length run" using p less.prems(2) by simp
    have pS: "run ! p \<in> S" using plen sub by (meson nth_mem subsetD)
    show ?thesis
    proof (cases "lt pivot (run ! p)")
      case lt: True
      have hi: "\<forall>i. p \<le> i \<and> i < length run \<longrightarrow> lt pivot (run ! i)"
      proof (intro allI impI)
        fix i assume i: "p \<le> i \<and> i < length run"
        show "lt pivot (run ! i)"
        proof (cases "i = p")
          case True with lt show ?thesis by simp
        next
          case False
          with i have "p < i" by simp
          with i srt have a: "\<not> lt (run ! i) (run ! p)"
            by (simp add: sorted_wrt_iff_nth_less)
          have iS: "run ! i \<in> S" using i sub by (meson nth_mem subsetD)
          show ?thesis
          proof (rule ccontr)
            assume b: "\<not> lt pivot (run ! i)"
            from tr[OF pS iS piv a b] lt show False by simp
          qed
        qed
      qed
      have eq: "bisect lt pivot run l r = bisect lt pivot run l p"
        using True lt by (simp add: bisect.simps[of lt pivot run l r] p_def Let_def)
      have "p - l < r - l" using p by simp
      from less.hyps[OF this _ _ less.prems(3) hi] p plen
      show ?thesis unfolding eq by simp
    next
      case ge: False
      have lo: "\<forall>i<p + 1. \<not> lt pivot (run ! i)"
      proof (intro allI impI)
        fix i assume i: "i < p + 1"
        show "\<not> lt pivot (run ! i)"
        proof (cases "i = p")
          case True with ge show ?thesis by simp
        next
          case False
          with i have ip: "i < p" by simp
          with plen srt have a: "\<not> lt (run ! p) (run ! i)"
            by (simp add: sorted_wrt_iff_nth_less)
          have iS: "run ! i \<in> S" using ip plen sub by (meson less_trans nth_mem subsetD)
          from tr[OF iS pS piv a ge] show ?thesis .
        qed
      qed
      have eq: "bisect lt pivot run l r = bisect lt pivot run (p + 1) r"
        using True ge by (simp add: bisect.simps[of lt pivot run l r] p_def Let_def)
      have "r - (p + 1) < r - l" using p by simp
      from less.hyps[OF this _ less.prems(2) lo less.prems(4)] p
      show ?thesis unfolding eq by simp
    qed
  qed
qed

lemma insert_sorted:
  assumes asym: "\<And>x y. lt x y \<Longrightarrow> \<not> lt y x"
    and srt: "sorted_wrt (\<lambda>a b. \<not> lt b a) run"
    and l: "l \<le> length run"
    and lo: "\<forall>i<l. \<not> lt pivot (run ! i)"
    and hi: "\<forall>i. l \<le> i \<and> i < length run \<longrightarrow> lt pivot (run ! i)"
  shows "sorted_wrt (\<lambda>a b. \<not> lt b a) (take l run @ pivot # drop l run)"
proof -
  have s: "sorted_wrt (\<lambda>a b. \<not> lt b a) (take l run)
      \<and> sorted_wrt (\<lambda>a b. \<not> lt b a) (drop l run)
      \<and> (\<forall>x\<in>set (take l run). \<forall>y\<in>set (drop l run). \<not> lt y x)"
    using srt by (metis append_take_drop_id sorted_wrt_append)
  have a: "\<forall>x\<in>set (take l run). \<not> lt pivot x"
    using lo l by (auto simp: in_set_conv_nth)
  have b: "\<forall>y\<in>set (drop l run). \<not> lt y pivot"
  proof
    fix y assume "y \<in> set (drop l run)"
    then obtain j where "j < length run - l" "y = run ! (l + j)"
      by (auto simp: in_set_conv_nth)
    with hi have "lt pivot y" by simp
    then show "\<not> lt y pivot" by (rule asym)
  qed
  from s a b show ?thesis
    by (auto simp: sorted_wrt_append)
qed

lemma binarysort_sorted:
  assumes asym: "\<And>x y. lt x y \<Longrightarrow> \<not> lt y x"
    and tr: "\<And>x y z. x \<in> S \<Longrightarrow> y \<in> S \<Longrightarrow> z \<in> S \<Longrightarrow> \<not> lt y x \<Longrightarrow> \<not> lt z y \<Longrightarrow> \<not> lt z x"
  shows "set run \<subseteq> S \<Longrightarrow> set rest \<subseteq> S \<Longrightarrow> sorted_wrt (\<lambda>a b. \<not> lt b a) run
     \<Longrightarrow> sorted_wrt (\<lambda>a b. \<not> lt b a) (binarysort lt run rest)"
proof (induction rest arbitrary: run)
  case Nil
  then show ?case by simp
next
  case (Cons pivot rest)
  define l where "l = bisect lt pivot run 0 (length run)"
  have piv: "pivot \<in> S" using Cons.prems(2) by simp
  have pos: "l \<le> length run \<and> (\<forall>i<l. \<not> lt pivot (run ! i))
     \<and> (\<forall>i. l \<le> i \<and> i < length run \<longrightarrow> lt pivot (run ! i))"
    unfolding l_def
    by (rule bisect_position[where S = S, OF tr Cons.prems(1) piv Cons.prems(3)]) auto
  have srt: "sorted_wrt (\<lambda>a b. \<not> lt b a) (take l run @ pivot # drop l run)"
    by (rule insert_sorted[OF asym Cons.prems(3)]) (use pos in simp_all)
  have sub: "set (take l run @ pivot # drop l run) \<subseteq> S"
    using Cons.prems(1) piv set_take_subset[of l run] set_drop_subset[of l run] by auto
  have rest: "set rest \<subseteq> S" using Cons.prems(2) by simp
  have "sorted_wrt (\<lambda>a b. \<not> lt b a) (binarysort lt (take l run @ pivot # drop l run) rest)"
    by (rule Cons.IH[OF sub rest srt])
  then show ?case by (simp add: Let_def l_def)
qed

lemma listsort_sorted:
  assumes asym: "\<And>x y. lt x y \<Longrightarrow> \<not> lt y x"
    and tr: "\<And>x y z. x \<in> set xs \<Longrightarrow> y \<in> set xs \<Longrightarrow> z \<in> set xs
               \<Longrightarrow> \<not> lt y x \<Longrightarrow> \<not> lt z y \<Longrightarrow> \<not> lt z x"
  shows "sorted_wrt (\<lambda>a b. \<not> lt b a) (listsort lt xs)"
proof (cases "length xs < 2")
  case True
  then have "xs = [] \<or> (\<exists>x. xs = [x])"
    by (cases xs) (auto simp: length_Suc_conv)
  with True show ?thesis by (auto simp: listsort_def)
next
  case False
  obtain n descending where cr: "count_run lt xs = (n, descending)"
    by (cases "count_run lt xs")
  define run where "run = (if descending then rev (take n xs) else take n xs)"
  have r: "sorted_wrt (\<lambda>a b. \<not> lt b a) run"
    unfolding run_def by (rule first_run_sorted[where S = "set xs", OF asym tr _ cr]) simp_all
  have s1: "set run \<subseteq> set xs"
    using set_take_subset[of n xs] by (auto simp: run_def)
  have s2: "set (drop n xs) \<subseteq> set xs" by (rule set_drop_subset)
  have "sorted_wrt (\<lambda>a b. \<not> lt b a) (binarysort lt run (drop n xs))"
    by (rule binarysort_sorted[where S = "set xs", OF asym tr s1 s2 r])
  with False cr show ?thesis by (simp add: listsort_def Let_def run_def)
qed

lemma sort_reverse_sorted:
  assumes "\<forall>x\<in>set xs. key x \<noteq> NaN"
  shows "sorted_wrt (\<lambda>a b. \<not> float_lt (key a) (key b)) (sort_reverse key xs)"
proof -
  let ?lt = "\<lambda>a b. float_lt (key a) (key b)"
  have "sorted_wrt (\<lambda>a b. \<not> ?lt b a) (listsort ?lt (rev xs))"
  proof (rule listsort_sorted)
    fix x y assume "?lt x y" then show "\<not> ?lt y x" by (rule float_lt_asym)
  next
    fix x y z
    assume "x \<in> set (rev xs)" "y \<in> set (rev xs)" "z \<in> set (rev xs)" "\<not> ?lt y x" "\<not> ?lt z y"
    with assms show "\<not> ?lt z x"
      using float_not_lt_trans[of "key x" "key y" "key z"] by auto
  qed
  then show ?thesis
    by (simp add: sort_reverse_def sorted_wrt_rev)
qed

subsection \<open>rerank\_documents\<close>

lemma relevance_score_zero:
  "(\<exists>e. chat_completions_create sv (RelevancePrompt query (contentSnippet doc)) = Inl e)
   \<or> (\<exists>reply. chat_completions_create sv (RelevancePrompt query (contentSnippet doc)) = Inr reply
         \<and> float_of_str sv (strip reply) = None)
   \<Longrightarrow> relevance_score sv query doc = Float 0"
  by (auto simp: relevance_score_def)

text \<open>
  C6, as the code has it. \<open>rerank_documents\<close> always returns (it has no error result)
  a list of the length of its input that holds exactly the entries made from the input
  documents; the entry of a document whose model call fails, or whose reply
  \<^verbatim>\<open>float\<close> rejects, has \<open>rerankScore\<close> 0; and when no entry has the score nan, the
  list is sorted by \<open>rerankScore\<close> descending (no entry is less than a later one).
\<close>

theorem rerank_documents_sorted_same_length:
  "length (snd (rerank_documents sv query documents)) = length documents
   \<and> mset (snd (rerank_documents sv query documents)) = mset (map (rerank_entry sv query) documents)
   \<and> (\<forall>doc. ((\<exists>e. chat_completions_create sv (RelevancePrompt query (contentSnippet doc)) = Inl e)
            \<or> (\<exists>reply. chat_completions_create sv (RelevancePrompt query (contentSnippet doc)) = Inr reply
                  \<and> float_of_str sv (strip reply) = None))
         \<longrightarrow> rerankScore (rerank_entry sv query doc) = Float 0)
   \<and> ((\<forall>doc\<in>set documents. rerankScore (rerank_entry sv query doc) \<noteq> NaN)
         \<longrightarrow> sorted_wrt (\<lambda>a b. \<not> float_lt (rerankScore a) (rerankScore b))
               (snd (rerank_documents sv query documents)))"
proof -
  have len: "length (snd (rerank_documents sv query documents)) = length documents"
    by (simp add: rerank_documents_def sort_reverse_length)
  have ms: "mset (snd (rerank_documents sv query documents)) = mset (map (rerank_entry sv query) documents)"
    by (simp add: rerank_documents_def sort_reverse_mset)
  have zero: "\<And>doc. (\<exists>e. chat_completions_create sv (RelevancePrompt query (contentSnippet doc)) = Inl e)
            \<or> (\<exists>reply. chat_completions_create sv (RelevancePrompt query (contentSnippet doc)) = Inr reply
                  \<and> float_of_str sv (strip reply) = None)
         \<Longrightarrow> rerankScore (rerank_entry sv query doc) = Float 0"
    using relevance_score_zero[of sv query] by (simp add: rerank_entry_def)
  have srt: "sorted_wrt (\<lambda>a b. \<not> float_lt (rerankScore a) (rerankScore b))
               (snd (rerank_documents sv query documents))"
    if "\<forall>doc\<in>set documents. rerankScore (rerank_entry sv query doc) \<noteq> NaN"
  proof -
    from that have "\<forall>x\<in>set (map (rerank_entry sv query) documents). rerankScore x \<noteq> NaN"
      by simp
    then show ?thesis
      unfolding rerank_documents_def snd_conv by (rule sort_reverse_sorted)
  qed
  from len ms zero srt show ?thesis by blast
qed

theorem rerank_documents_witness:
  "length (snd (rerank_documents demo_services ''what is X?'' four_hits)) = 4
   \<and> sorted_wrt (\<lambda>a b. \<not> float_lt (rerankScore a) (rerankScore b))
        (snd (rerank_documents demo_services ''what is X?'' four_hits))
   \<and> chat_completions_create demo_services (RelevancePrompt ''what is X?'' ''passage four'') = Inr ''high''
   \<and> float_of_str demo_services (strip ''high'') = None
   \<and> rerankScore (rerank_entry demo_services ''what is X?''
        \<lparr>documentId = ''f_3'', relevanceScore = 0.75, contentSnippet = ''passage four''\<rparr>) = Float 0
   \<and> chat_completions_create demo_services (RelevancePrompt ''what is X?'' ''passage five'') = Inl ''timeout''
   \<and> rerankScore (rerank_entry demo_services ''what is X?''
        \<lparr>documentId = ''f_4'', relevanceScore = 0.6, contentSnippet = ''passage five''\<rparr>) = Float 0
   \<and> map rr_documentId (snd (rerank_documents demo_services ''what is X?'' four_hits))
        = [''f_0'', ''f_1'', ''f_3'', ''f_4'']"
proof -
  note main = rerank_documents_sorted_same_length[of demo_services "''what is X?''" four_hits]
  have len: "length four_hits = 4" by (simp add: four_hits_def)
  have four: "chat_completions_create demo_services (RelevancePrompt ''what is X?'' ''passage four'') = Inr ''high''"
    by (simp add: demo_services_def demo_chat_def)
  have parse: "float_of_str demo_services (strip ''high'') = None"
    by (simp add: demo_services_def demo_float_def strip_def is_space_def)
  have five: "chat_completions_create demo_services (RelevancePrompt ''what is X?'' ''passage five'') = Inl ''timeout''"
    by (simp add: demo_services_def demo_chat_def)
  have z4: "rerankScore (rerank_entry demo_services ''what is X?''
        \<lparr>documentId = ''f_3'', relevanceScore = 0.75, contentSnippet = ''passage four''\<rparr>) = Float 0"
    using main four parse by simp
  have z5: "rerankScore (rerank_entry demo_services ''what is X?''
        \<lparr>documentId = ''f_4'', relevanceScore = 0.6, contentSnippet = ''passage five''\<rparr>) = Float 0"
    using main five by simp
  have scores: "map (\<lambda>doc. rerankScore (rerank_entry demo_services ''what is X?'' doc)) four_hits
        = [Float 7, Float 2, Float 0, Float 0]"
    by code_simp
  have "\<forall>s\<in>set (map (\<lambda>doc. rerankScore (rerank_entry demo_services ''what is X?'' doc)) four_hits).
          s \<noteq> NaN"
    unfolding scores by simp
  then have nonan: "\<forall>doc\<in>set four_hits. rerankScore (rerank_entry demo_services ''what is X?'' doc) \<noteq> NaN"
    by simp
  have srt: "sorted_wrt (\<lambda>a b. \<not> float_lt (rerankScore a) (rerankScore b))
        (snd (rerank_documents demo_services ''what is X?'' four_hits))"
    using main nonan by blast
  have order: "map rr_documentId (snd (rerank_documents demo_services ''what is X?'' four_hits))
        = [''f_0'', ''f_1'', ''f_3'', ''f_4'']"
    by code_simp
  from main len have l: "length (snd (rerank_documents demo_services ''what is X?'' four_hits)) = 4"
    by simp
  from l srt four parse z4 five z5 order show ?thesis by (intro conjI)
qed

text \<open>
  C6 as stated fails: three documents whose replies are 1, nan and 2. \<^verbatim>\<open>float\<close> accepts
  the text nan, so the second entry has a score that is not 0, and since every
  comparison with nan is false the sort leaves the list as it is: the entry scored 1
  stays before the entry scored 2.
\<close>

theorem rerank_documents_nan_unsorted:
  "map rerankScore (snd (rerank_documents demo_services ''what is X?'' nan_hits))
     = [Float 1, NaN, Float 2]
   \<and> map rr_documentId (snd (rerank_documents demo_services ''what is X?'' nan_hits))
     = [''f_5'', ''f_6'', ''f_1'']
   \<and> float_lt (Float 1) (Float 2)
   \<and> chat_completions_create demo_services (RelevancePrompt ''what is X?'' ''passage seven'') = Inr ''nan''
   \<and> float_of_str demo_services (strip ''nan'') = Some NaN"
  by code_simp

subsection \<open>query\_index\<close>

lemma answer_from_results_shape:
  assumes "answer_from_results sv query company_id results = (calls, Inr resp)"
  shows "sourceDocuments resp = map to_source_document results
     \<and> scores resp = map search_score results
     \<and> expandedQuery resp = query
     \<and> (\<exists>system_prompt earlier.
           calls = earlier @ [Chat_completions_create
             (AnswerMessages system_prompt
                (join newline (map rr_contentSnippet
                   (snd (rerank_documents sv query (map to_source_document results)))))
                query)])"
  using assms
  by (auto simp: answer_from_results_def Let_def to_source_document_def comp_def
      split: prod.splits sum.splits)

lemma query_index_shape:
  assumes "query_index sv svc base query company_id top_k = (calls, Inr resp)"
  shows "\<exists>v results more.
            embeddings_create sv query = Inr v
          \<and> vector_search sv (index_documents svc base) v top_k = Inr results
          \<and> answer_from_results sv query company_id results = (more, Inr resp)
          \<and> calls = [Embeddings_create query, Get_index base, Search base top_k] @ more"
  using assms
  by (auto simp: query_index_def create_embeddings_def get_index_def Let_def
      split: prod.splits sum.splits list.splits option.splits)

lemma demo_query_run:
  "query_index demo_services three_passages ''rag'' ''what is X?'' ''B'' 3 =
   ([Embeddings_create ''what is X?'', Get_index ''rag'', Search ''rag'' 3,
     Chat_completions_create (RelevancePrompt ''what is X?'' ''passage one''),
     Chat_completions_create (RelevancePrompt ''what is X?'' ''passage two''),
     Chat_completions_create (RelevancePrompt ''what is X?'' ''passage three''),
     Get_prompt_template ''B'',
     Chat_completions_create
      (AnswerMessages ''Answer briefly.''
        (''passage three'' @ newline @ ''passage one'' @ newline @ ''passage two'') ''what is X?'')],
    Inr \<lparr>answer = ''X is described in passage three.'',
         scores = [9 / 10, 4 / 5, 7 / 10],
         sourceDocuments =
           [\<lparr>documentId = ''f_0'', relevanceScore = 9 / 10, contentSnippet = ''passage one''\<rparr>,
            \<lparr>documentId = ''f_1'', relevanceScore = 4 / 5, contentSnippet = ''passage two''\<rparr>,
            \<lparr>documentId = ''f_2'', relevanceScore = 7 / 10, contentSnippet = ''passage three''\<rparr>],
         expandedQuery = ''what is X?''\<rparr>)
   \<and> map rerankScore (map (rerank_entry demo_services ''what is X?'')
         [\<lparr>documentId = ''f_0'', relevanceScore = 9 / 10, contentSnippet = ''passage one''\<rparr>,
          \<lparr>documentId = ''f_1'', relevanceScore = 4 / 5, contentSnippet = ''passage two''\<rparr>,
          \<lparr>documentId = ''f_2'', relevanceScore = 7 / 10, contentSnippet = ''passage three''\<rparr>])
       = [Float 7, Float 2, Float 9]"
  by code_simp

text \<open>
  C4, as the code has it. In every query that returns a response, the context block of
  the last call, the completion request, is the newline-join of the snippets in the
  order \<open>rerank_documents\<close> returns them, which is \<open>rerankScore\<close> descending when no
  score is nan; \<open>sourceDocuments\<close> and \<open>scores\<close> of the response are the hits of the
  vector search in the order the search returned them.
\<close>

theorem query_index_context_in_rerank_order:
  assumes "query_index sv svc AZURE_SEARCH_INDEX_NAME query company_id top_k = (calls, Inr resp)"
  shows "\<exists>v results system_prompt.
            embeddings_create sv query = Inr v
          \<and> vector_search sv (index_documents svc AZURE_SEARCH_INDEX_NAME) v top_k = Inr results
          \<and> sourceDocuments resp = map to_source_document results
          \<and> scores resp = map search_score results
          \<and> last calls = Chat_completions_create
               (AnswerMessages system_prompt
                  (join newline (map rr_contentSnippet
                     (snd (rerank_documents sv query (sourceDocuments resp)))))
                  query)
          \<and> ((\<forall>doc\<in>set (sourceDocuments resp). rerankScore (rerank_entry sv query doc) \<noteq> NaN)
               \<longrightarrow> sorted_wrt (\<lambda>a b. \<not> float_lt (rerankScore a) (rerankScore b))
                     (snd (rerank_documents sv query (sourceDocuments resp))))"
proof -
  from query_index_shape[OF assms] obtain v results more where
    v: "embeddings_create sv query = Inr v"
    and r: "vector_search sv (index_documents svc AZURE_SEARCH_INDEX_NAME) v top_k = Inr results"
    and a: "answer_from_results sv query company_id results = (more, Inr resp)"
    and c: "calls = [Embeddings_create query, Get_index AZURE_SEARCH_INDEX_NAME,
                     Search AZURE_SEARCH_INDEX_NAME top_k] @ more"
    by blast
  from answer_from_results_shape[OF a] obtain system_prompt earlier where
    s: "sourceDocuments resp = map to_source_document results"
    and sc: "scores resp = map search_score results"
    and m: "more = earlier @ [Chat_completions_create
             (AnswerMessages system_prompt
                (join newline (map rr_contentSnippet
                   (snd (rerank_documents sv query (map to_source_document results)))))
                query)]"
    by blast
  have l: "last calls = Chat_completions_create
             (AnswerMessages system_prompt
                (join newline (map rr_contentSnippet
                   (snd (rerank_documents sv query (sourceDocuments resp)))))
                query)"
    unfolding c m s by simp
  have srt: "(\<forall>doc\<in>set (sourceDocuments resp). rerankScore (rerank_entry sv query doc) \<noteq> NaN)
               \<longrightarrow> sorted_wrt (\<lambda>a b. \<not> float_lt (rerankScore a) (rerankScore b))
                     (snd (rerank_documents sv query (sourceDocuments resp)))"
  proof
    assume "\<forall>doc\<in>set (sourceDocuments resp). rerankScore (rerank_entry sv query doc) \<noteq> NaN"
    then have "\<forall>x\<in>set (map (rerank_entry sv query) (sourceDocuments resp)). rerankScore x \<noteq> NaN"
      by simp
    then show "sorted_wrt (\<lambda>a b. \<not> float_lt (rerankScore a) (rerankScore b))
                 (snd (rerank_documents sv query (sourceDocuments resp)))"
      unfolding rerank_documents_def snd_conv by (rule sort_reverse_sorted)
  qed
  from v r s sc l srt show ?thesis by blast
qed

theorem query_index_context_witness:
  "\<exists>v results system_prompt.
      embeddings_create demo_services ''what is X?'' = Inr v
    \<and> vector_search demo_services (index_documents three_passages ''rag'') v 3 = Inr results
    \<and> map documentId (map to_source_document results) = [''f_0'', ''f_1'', ''f_2'']
    \<and> last (fst (query_index demo_services three_passages ''rag'' ''what is X?'' ''B'' 3))
        = Chat_completions_create
            (AnswerMessages system_prompt
               (join newline (map rr_contentSnippet
                  (snd (rerank_documents demo_services ''what is X?'' (map to_source_document results)))))
               ''what is X?'')
    \<and> sorted_wrt (\<lambda>a b. \<not> float_lt (rerankScore a) (rerankScore b))
         (snd (rerank_documents demo_services ''what is X?'' (map to_source_document results)))"
proof -
  obtain calls resp where
    q: "query_index demo_services three_passages ''rag'' ''what is X?'' ''B'' 3 = (calls, Inr resp)"
    and d: "map documentId (sourceDocuments resp) = [''f_0'', ''f_1'', ''f_2'']"
    and src: "sourceDocuments resp =
           [\<lparr>documentId = ''f_0'', relevanceScore = 9 / 10, contentSnippet = ''passage one''\<rparr>,
            \<lparr>documentId = ''f_1'', relevanceScore = 4 / 5, contentSnippet = ''passage two''\<rparr>,
            \<lparr>documentId = ''f_2'', relevanceScore = 7 / 10, contentSnippet = ''passage three''\<rparr>]"
    using demo_query_run by simp
  have "map (\<lambda>doc. rerankScore (rerank_entry demo_services ''what is X?'' doc)) (sourceDocuments resp)
        = [Float 7, Float 2, Float 9]"
    unfolding src using demo_query_run by simp
  then have "\<forall>s\<in>set (map (\<lambda>doc. rerankScore (rerank_entry demo_services ''what is X?'' doc))
                         (sourceDocuments resp)). s \<noteq> NaN"
    by simp
  then have nonan: "\<forall>doc\<in>set (sourceDocuments resp).
                       rerankScore (rerank_entry demo_services ''what is X?'' doc) \<noteq> NaN"
    by simp
  from query_index_context_in_rerank_order[OF q] obtain v results system_prompt where
    "embeddings_create demo_services ''what is X?'' = Inr v"
    "vector_search demo_services (index_documents three_passages ''rag'') v 3 = Inr results"
    "sourceDocuments resp = map to_source_document results"
    "last calls = Chat_completions_create
               (AnswerMessages system_prompt
                  (join newline (map rr_contentSnippet
                     (snd (rerank_documents demo_services ''what is X?'' (sourceDocuments resp)))))
                  ''what is X?'')"
    "(\<forall>doc\<in>set (sourceDocuments resp). rerankScore (rerank_entry demo_services ''what is X?'' doc) \<noteq> NaN)
               \<longrightarrow> sorted_wrt (\<lambda>a b. \<not> float_lt (rerankScore a) (rerankScore b))
                     (snd (rerank_documents demo_services ''what is X?'' (sourceDocuments resp)))"
    by blast
  with nonan d q show ?thesis
    by (metis fst_conv)
qed

text \<open>
  C4 as stated fails for the response: three passages retrieved in the order one, two,
  three are graded 7, 2 and 9. The context block reads three, one, two, and
  \<open>sourceDocuments\<close> still reads one, two, three, with the passage graded lowest in
  the middle.
\<close>

theorem query_index_sources_in_retrieval_order:
  "query_index demo_services three_passages ''rag'' ''what is X?'' ''B'' 3 =
   ([Embeddings_create ''what is X?'', Get_index ''rag'', Search ''rag'' 3,
     Chat_completions_create (RelevancePrompt ''what is X?'' ''passage one''),
     Chat_completions_create (RelevancePrompt ''what is X?'' ''passage two''),
     Chat_completions_create (RelevancePrompt ''what is X?'' ''passage three''),
     Get_prompt_template ''B'',
     Chat_completions_create
      (AnswerMessages ''Answer briefly.''
        (''passage three'' @ newline @ ''passage one'' @ newline @ ''passage two'') ''what is X?'')],
    Inr \<lparr>answer = ''X is described in passage three.'',
         scores = [9 / 10, 4 / 5, 7 / 10],
         sourceDocuments =
           [\<lparr>documentId = ''f_0'', relevanceScore = 9 / 10, contentSnippet = ''passage one''\<rparr>,
            \<lparr>documentId = ''f_1'', relevanceScore = 4 / 5, contentSnippet = ''passage two''\<rparr>,
            \<lparr>documentId = ''f_2'', relevanceScore = 7 / 10, contentSnippet = ''passage three''\<rparr>],
         expandedQuery = ''what is X?''\<rparr>)
   \<and> map rerankScore (map (rerank_entry demo_services ''what is X?'')
         [\<lparr>documentId = ''f_0'', relevanceScore = 9 / 10, contentSnippet = ''passage one''\<rparr>,
          \<lparr>documentId = ''f_1'', relevanceScore = 4 / 5, contentSnippet = ''passage two''\<rparr>,
          \<lparr>documentId = ''f_2'', relevanceScore = 7 / 10, contentSnippet = ''passage three''\<rparr>])
       = [Float 7, Float 2, Float 9]"
  by (rule demo_query_run)

subsection \<open>The query path and the route POST /query\<close>

lemma query_index_first_call:
  "\<exists>rest. fst (query_index sv svc base query company_id top_k) = Embeddings_create query # rest"
  by (auto simp: query_index_def create_embeddings_def Let_def
      split: prod.splits sum.splits list.splits option.splits)

lemma embed_loop_calls:
  "c \<in> set (fst (embed_loop sv texts acc)) \<Longrightarrow> \<exists>t. c = Embeddings_create t"
proof (induction texts arbitrary: acc)
  case Nil
  then show ?case by simp
next
  case (Cons t ts)
  show ?case
  proof (cases "embeddings_create sv t")
    case (Inl e)
    with Cons.prems show ?thesis by simp
  next
    case (Inr v)
    with Cons.prems have "c = Embeddings_create t \<or> c \<in> set (fst (embed_loop sv ts (acc @ [v])))"
      by (simp add: case_prod_beta)
    with Cons.IH show ?thesis by blast
  qed
qed

lemma answer_from_results_calls:
  "Chat_completions_create (RewritePrompt q) \<notin> set (fst (answer_from_results sv query company_id results))"
  by (auto simp: answer_from_results_def rerank_documents_def Let_def split: sum.splits)

lemma query_index_no_rewrite_call:
  "Chat_completions_create (RewritePrompt q) \<notin> set (fst (query_index sv svc base query company_id top_k))"
proof -
  have e: "Chat_completions_create (RewritePrompt q) \<notin> set (fst (create_embeddings sv [query]))"
    using embed_loop_calls[of "Chat_completions_create (RewritePrompt q)" sv "[query]" "[]"]
    by (auto simp: create_embeddings_def)
  obtain embed_calls embedded where ce: "create_embeddings sv [query] = (embed_calls, embedded)"
    by (cases "create_embeddings sv [query]")
  with e have e': "Chat_completions_create (RewritePrompt q) \<notin> set embed_calls" by simp
  show ?thesis
    using e' answer_from_results_calls[of q sv query company_id]
    by (auto simp: query_index_def ce Let_def case_prod_beta
        split: sum.splits list.splits option.splits)
qed

lemma query_index_expandedQuery:
  assumes "snd (query_index sv svc base query company_id top_k) = Inr resp"
  shows "expandedQuery resp = query"
proof -
  from assms obtain calls where "query_index sv svc base query company_id top_k = (calls, Inr resp)"
    by (metis prod.collapse)
  from query_index_shape[OF this] obtain results more where
    "answer_from_results sv query company_id results = (more, Inr resp)" by blast
  from answer_from_results_shape[OF this] show ?thesis by blast
qed

lemma query_rag_index_calls:
  "fst (query_rag_index sv svc base payload_query company_id)
     = Chat_completions_create (RewritePrompt payload_query)
       # fst (query_index sv svc base (snd (expand_query sv payload_query)) company_id 5)"
  by (simp add: query_rag_index_def expand_query_def case_prod_beta Let_def)

lemma query_rag_index_response:
  "snd (query_rag_index sv svc base payload_query company_id) = Inr resp
   \<Longrightarrow> snd (query_index sv svc base (snd (expand_query sv payload_query)) company_id 5) = Inr resp"
  by (auto simp: query_rag_index_def expand_query_def case_prod_beta Let_def
      split: sum.splits exn.splits)

text \<open>
  C5, as the code has it. \<open>query_index\<close>, which the chat and Slack services call,
  sends no rewrite request: its first call embeds the query it is given, and
  \<open>expandedQuery\<close> of its response is that query. Only the route POST /query expands:
  its first call is the rewrite request of \<open>expand_query\<close> for the question, and the
  next one embeds the text that \<open>expand_query\<close> returned. When the rewrite request
  fails, that text is the question itself and \<open>expandedQuery\<close> of every response of
  the route is the question unchanged.
\<close>

theorem query_route_expands_before_embedding:
  "(\<exists>rest. fst (query_index sv svc AZURE_SEARCH_INDEX_NAME query company_id top_k)
       = Embeddings_create query # rest)
   \<and> (\<forall>q. Chat_completions_create (RewritePrompt q)
            \<notin> set (fst (query_index sv svc AZURE_SEARCH_INDEX_NAME query company_id top_k)))
   \<and> (\<forall>resp. snd (query_index sv svc AZURE_SEARCH_INDEX_NAME query company_id top_k) = Inr resp
         \<longrightarrow> expandedQuery resp = query)
   \<and> (\<exists>rest. fst (query_rag_index sv svc AZURE_SEARCH_INDEX_NAME payload_query company_id)
       = Chat_completions_create (RewritePrompt payload_query)
         # Embeddings_create (snd (expand_query sv payload_query)) # rest)
   \<and> ((\<exists>e. chat_completions_create sv (RewritePrompt payload_query) = Inl e)
        \<longrightarrow> snd (expand_query sv payload_query) = payload_query
          \<and> (\<forall>resp. snd (query_rag_index sv svc AZURE_SEARCH_INDEX_NAME payload_query company_id) = Inr resp
                \<longrightarrow> expandedQuery resp = payload_query))"
proof -
  have a: "\<exists>rest. fst (query_index sv svc AZURE_SEARCH_INDEX_NAME query company_id top_k)
       = Embeddings_create query # rest"
    by (rule query_index_first_call)
  have b: "\<forall>q. Chat_completions_create (RewritePrompt q)
            \<notin> set (fst (query_index sv svc AZURE_SEARCH_INDEX_NAME query company_id top_k))"
    using query_index_no_rewrite_call by blast
  have c: "\<forall>resp. snd (query_index sv svc AZURE_SEARCH_INDEX_NAME query company_id top_k) = Inr resp
         \<longrightarrow> expandedQuery resp = query"
    using query_index_expandedQuery by blast
  obtain rest where r: "fst (query_index sv svc AZURE_SEARCH_INDEX_NAME
       (snd (expand_query sv payload_query)) company_id 5)
      = Embeddings_create (snd (expand_query sv payload_query)) # rest"
    using query_index_first_call by blast
  have d: "\<exists>rest. fst (query_rag_index sv svc AZURE_SEARCH_INDEX_NAME payload_query company_id)
       = Chat_completions_create (RewritePrompt payload_query)
         # Embeddings_create (snd (expand_query sv payload_query)) # rest"
    unfolding query_rag_index_calls r by blast
  have e: "(\<exists>e. chat_completions_create sv (RewritePrompt payload_query) = Inl e)
        \<longrightarrow> snd (expand_query sv payload_query) = payload_query
          \<and> (\<forall>resp. snd (query_rag_index sv svc AZURE_SEARCH_INDEX_NAME payload_query company_id) = Inr resp
                \<longrightarrow> expandedQuery resp = payload_query)"
  proof
    assume "\<exists>e. chat_completions_create sv (RewritePrompt payload_query) = Inl e"
    then have f: "snd (expand_query sv payload_query) = payload_query"
      by (auto simp: expand_query_def)
    have "expandedQuery resp = payload_query"
      if "snd (query_rag_index sv svc AZURE_SEARCH_INDEX_NAME payload_query company_id) = Inr resp"
      for resp
      using query_index_expandedQuery[OF query_rag_index_response[OF that]] f by simp
    with f show "snd (expand_query sv payload_query) = payload_query
          \<and> (\<forall>resp. snd (query_rag_index sv svc AZURE_SEARCH_INDEX_NAME payload_query company_id) = Inr resp
                \<longrightarrow> expandedQuery resp = payload_query)"
      by blast
  qed
  from a b c d e show ?thesis by (intro conjI)
qed

theorem query_route_expansion_failure_witness:
  "chat_completions_create demo_services (RewritePrompt ''what is X?'') = Inl ''timeout''
   \<and> snd (expand_query demo_services ''what is X?'') = ''what is X?''
   \<and> (\<exists>resp. snd (query_rag_index demo_services three_passages ''rag'' ''what is X?'' ''B'') = Inr resp
          \<and> expandedQuery resp = ''what is X?'')
   \<and> (\<exists>resp. snd (query_index demo_services three_passages ''rag'' ''what is X?'' ''B'' 3) = Inr resp
          \<and> expandedQuery resp = ''what is X?'')"
proof -
  note main = query_route_expands_before_embedding[of demo_services three_passages "''rag''"
      "''what is X?''" "''B''" 3 "''what is X?''"]
  have f: "chat_completions_create demo_services (RewritePrompt ''what is X?'') = Inl ''timeout''"
    by (simp add: demo_services_def demo_chat_def)
  have "snd (query_rag_index demo_services three_passages ''rag'' ''what is X?'' ''B'')
        = Inr \<lparr>answer = ''X is described in passage three.'',
         scores = [9 / 10, 4 / 5, 7 / 10],
         sourceDocuments =
           [\<lparr>documentId = ''f_0'', relevanceScore = 9 / 10, contentSnippet = ''passage one''\<rparr>,
            \<lparr>documentId = ''f_1'', relevanceScore = 4 / 5, contentSnippet = ''passage two''\<rparr>,
            \<lparr>documentId = ''f_2'', relevanceScore = 7 / 10, contentSnippet = ''passage three''\<rparr>],
         expandedQuery = ''what is X?''\<rparr>"
    by code_simp
  then have r: "\<exists>resp. snd (query_rag_index demo_services three_passages ''rag'' ''what is X?'' ''B'') = Inr resp"
    by simp
  have q: "\<exists>resp. snd (query_index demo_services three_passages ''rag'' ''what is X?'' ''B'' 3) = Inr resp"
    using demo_query_run by simp
  from main f r q show ?thesis by blast
qed

text \<open>
  C5 as stated fails on the query path itself: with a rewrite request that would turn
  the question into another text, \<open>query_index\<close>, called as the chat service calls it,
  sends no rewrite request and embeds the question as it was given.
\<close>

theorem query_index_skips_expansion:
  "fst (query_index rewriting_services three_passages ''rag'' ''what is X?'' ''B'' 10) =
     [Embeddings_create ''what is X?'', Get_index ''rag'', Search ''rag'' 10,
      Chat_completions_create (RelevancePrompt ''what is X?'' ''passage one''),
      Chat_completions_create (RelevancePrompt ''what is X?'' ''passage two''),
      Chat_completions_create (RelevancePrompt ''what is X?'' ''passage three''),
      Get_prompt_template ''B'',
      Chat_completions_create
       (AnswerMessages ''Answer briefly.''
         (''passage three'' @ newline @ ''passage one'' @ newline @ ''passage two'') ''what is X?'')]
   \<and> expand_query rewriting_services ''what is X?''
       = ([Chat_completions_create (RewritePrompt ''what is X?'')], ''what is X in the handbook?'')"
  by code_simp

subsection \<open>Tenants and indexes\<close>

text \<open>
  C3. Starting from a search service without indexes, company X builds its index, then
  company A builds its index, then company B asks a question. The first build creates
  the index with X's suffix and an index of the base name. The second build resolves
  the base name, finds that index, and uploads A's passage into it. The query of B
  searches the index of the base name and returns A's passage.
\<close>

theorem tenant_b_query_returns_tenant_a_passage:
  "(let (svc1, r1) = build_index demo_services Map.empty ''rag'' ''file-x'' ''X'';
        (svc2, r2) = build_index demo_services svc1 ''rag'' ''file-a'' ''A''
    in r1 = Inr 1 \<and> r2 = Inr 1
       \<and> map_option (map doc_id) (svc2 ''rag-x'') = Some [''file-x_0'']
       \<and> map_option (map doc_id) (svc2 ''rag'') = Some [''file-a_0'']
       \<and> svc2 ''rag-a'' = None
       \<and> snd (query_index demo_services svc2 ''rag'' ''hello?'' ''B'' 3)
           = Inr \<lparr>answer = ''X is described in passage three.'', scores = [1],
                  sourceDocuments =
                    [\<lparr>documentId = ''file-a_0'', relevanceScore = 1,
                      contentSnippet = ''2024-01-01 09:01:00 U2 bob general hello nan''\<rparr>],
                  expandedQuery = ''hello?''\<rparr>)"
  by code_simp

subsection \<open>build\_index\_from\_blob\<close>









end
